theory Spec2Isabelle
  imports Complex_Main
begin

section \<open>Ambient soundscape engine (useAudioEngine)\<close>

text \<open>
  A shallow embedding of the hook \<open>useAudioEngine\<close> and of \<open>createNoiseBuffer\<close>.
  Sample values, gain values and times are real numbers (the source computes in IEEE
  doubles; rounding is not modelled). \<open>Math.random()\<close> is a stream of draws
  \<open>rnd 0, rnd 1, ...\<close>, each in \<open>[0, 1)\<close>; loop iteration \<open>i\<close> consumes draw \<open>i\<close>.
\<close>

subsection \<open>Noise buffers\<close>

datatype NoiseType = white | pink | brown

datatype error = NotSupportedError | InvalidStateError | TypeError

record AudioBuffer =
  numberOfChannels :: nat
  bufLength :: nat
  bufSampleRate :: real
  channelData :: "real list"

text \<open>
  \<open>createBuffer\<close> takes its frame count as a Web IDL \<open>unsigned long\<close>: a JavaScript number
  is truncated towards zero and reduced modulo \<open>2^32\<close>.
\<close>

definition toUnsignedLong :: "real \<Rightarrow> nat" where
  "toUnsignedLong x = nat ((if x < 0 then - \<lfloor>- x\<rfloor> else \<lfloor>x\<rfloor>) mod 2 ^ 32)"

text \<open>
  \<open>context.createBuffer(channels, length, sampleRate)\<close>: a zero-filled buffer. The Web Audio
  API raises NotSupportedError when the channel count or the frame count is zero, or when
  the sample rate is not positive or lies outside the range the implementation supports;
  that range, \<open>minRate\<close> to \<open>maxRate\<close>, is a parameter (the API guarantees at least 8000 to
  96000 Hz).
\<close>

definition createBuffer :: "real \<Rightarrow> real \<Rightarrow> nat \<Rightarrow> real \<Rightarrow> real \<Rightarrow> error + AudioBuffer" where
  "createBuffer minRate maxRate channels len rate =
     (if channels = 0 \<or> toUnsignedLong len = 0 \<or> rate \<le> 0 \<or> rate < minRate \<or> maxRate < rate
      then Inl NotSupportedError
      else Inr \<lparr>numberOfChannels = channels, bufLength = toUnsignedLong len,
                bufSampleRate = rate, channelData = replicate (toUnsignedLong len) 0\<rparr>)"

text \<open>
  The three loops \<open>for (let i = 0; i < length; i++)\<close>. \<open>length\<close> is the JavaScript number
  \<open>sampleRate * durationSec\<close>, not the buffer's frame count, so the loops compare the
  counter with a real number. \<open>data\<close> is the buffer's Float32Array: an assignment beyond its
  end is ignored in JavaScript, and so is \<open>data[i := v]\<close> in HOL.
\<close>

function whiteLoop :: "(nat \<Rightarrow> real) \<Rightarrow> nat \<Rightarrow> real \<Rightarrow> real list \<Rightarrow> real list" where
  "whiteLoop rnd i len data =
     (if real i < len then whiteLoop rnd (i + 1) len (data[i := rnd i * 2 - 1]) else data)"
  by pat_completeness auto
termination
proof (relation "measure (\<lambda>(rnd, i, len, data). nat \<lceil>len\<rceil> - i)")
  show "wf (measure (\<lambda>(rnd, i, len, data). nat \<lceil>len :: real\<rceil> - i))"
    by simp
next
  fix rnd :: "nat \<Rightarrow> real" and i :: nat and len :: real and data :: "real list"
  assume "real i < len"
  then have "int i < \<lceil>len\<rceil>"
    by (simp add: less_ceiling_iff)
  then show "((rnd, i + 1, len, data[i := rnd i * 2 - 1]), (rnd, i, len, data))
               \<in> measure (\<lambda>(rnd, i, len, data). nat \<lceil>len\<rceil> - i)"
    by simp
qed

declare whiteLoop.simps [simp del]

record pinkState =
  b0 :: real
  b1 :: real
  b2 :: real
  b3 :: real
  b4 :: real
  b5 :: real
  b6 :: real

definition pinkInit :: pinkState where
  "pinkInit = \<lparr>b0 = 0, b1 = 0, b2 = 0, b3 = 0, b4 = 0, b5 = 0, b6 = 0\<rparr>"

text \<open>One iteration of the pink loop body for the draw \<open>w = Math.random() * 2 - 1\<close>:
  the updated filter state and the value of \<open>pink\<close> (before the gain 0.11).\<close>

definition pinkStep :: "real \<Rightarrow> pinkState \<Rightarrow> pinkState \<times> real" where
  "pinkStep w s =
     (let n0 = 0.99886 * b0 s + w * 0.0555179;
          n1 = 0.99332 * b1 s + w * 0.0750759;
          n2 = 0.969 * b2 s + w * 0.153852;
          n3 = 0.8665 * b3 s + w * 0.3104856;
          n4 = 0.55 * b4 s + w * 0.5329522;
          n5 = - 0.7616 * b5 s - w * 0.016898;
          pk = n0 + n1 + n2 + n3 + n4 + n5 + b6 s + w * 0.5362
      in (\<lparr>b0 = n0, b1 = n1, b2 = n2, b3 = n3, b4 = n4, b5 = n5, b6 = w * 0.115926\<rparr>, pk))"

function pinkLoop ::
  "(nat \<Rightarrow> real) \<Rightarrow> nat \<Rightarrow> real \<Rightarrow> pinkState \<Rightarrow> real list \<Rightarrow> real list" where
  "pinkLoop rnd i len s data =
     (if real i < len
      then (case pinkStep (rnd i * 2 - 1) s of
              (s', pk) \<Rightarrow> pinkLoop rnd (i + 1) len s' (data[i := pk * 0.11]))
      else data)"
  by pat_completeness auto
termination
proof (relation "measure (\<lambda>(rnd, i, len, s, data). nat \<lceil>len\<rceil> - i)")
  show "wf (measure (\<lambda>(rnd, i, len, s, data). nat \<lceil>len :: real\<rceil> - i))"
    by simp
next
  fix rnd :: "nat \<Rightarrow> real" and i :: nat and len :: real and s s' :: pinkState
    and data :: "real list" and x :: "pinkState \<times> real" and pk :: real
  assume "real i < len"
  then have "int i < \<lceil>len\<rceil>"
    by (simp add: less_ceiling_iff)
  then show "((rnd, i + 1, len, s', data[i := pk * 0.11]), (rnd, i, len, s, data))
               \<in> measure (\<lambda>(rnd, i, len, s, data). nat \<lceil>len\<rceil> - i)"
    by simp
qed

declare pinkLoop.simps [simp del]

function brownLoop :: "(nat \<Rightarrow> real) \<Rightarrow> nat \<Rightarrow> real \<Rightarrow> real \<Rightarrow> real list \<Rightarrow> real list" where
  "brownLoop rnd i len lastOut data =
     (if real i < len
      then (let w = rnd i * 2 - 1;
                lastOut' = (lastOut + 0.02 * w) / 1.02
            in brownLoop rnd (i + 1) len lastOut' (data[i := lastOut' * 3.5]))
      else data)"
  by pat_completeness auto
termination
proof (relation "measure (\<lambda>(rnd, i, len, lastOut, data). nat \<lceil>len\<rceil> - i)")
  show "wf (measure (\<lambda>(rnd, i, len, lastOut, data). nat \<lceil>len :: real\<rceil> - i))"
    by simp
next
  fix rnd :: "nat \<Rightarrow> real" and i :: nat and len lastOut w lastOut' :: real
    and data :: "real list"
  assume "real i < len"
  then have "int i < \<lceil>len\<rceil>"
    by (simp add: less_ceiling_iff)
  then show "((rnd, i + 1, len, lastOut', data[i := lastOut' * 3.5]),
              (rnd, i, len, lastOut, data))
               \<in> measure (\<lambda>(rnd, i, len, lastOut, data). nat \<lceil>len\<rceil> - i)"
    by simp
qed

declare brownLoop.simps [simp del]

text \<open>\<open>createNoiseBuffer(context, type, durationSec)\<close>; the context contributes its sample
  rate \<open>rate\<close> and the range of rates it supports. \<open>durationSec\<close> and \<open>rate\<close> are JavaScript
  numbers, here real numbers. \<open>mul\<close> is JavaScript's \<open>*\<close> in
  \<open>const length = sampleRate * durationSec\<close>: the product rounded to a double, which may be a
  whole number where the exact product is not (44100 * 0.3 is 13230 in JavaScript). The
  frame count depends on it, so it is a parameter; the exact product is \<open>times\<close>.\<close>

definition createNoiseBuffer ::
  "(real \<Rightarrow> real \<Rightarrow> real) \<Rightarrow> (nat \<Rightarrow> real) \<Rightarrow> real \<Rightarrow> real \<Rightarrow> real \<Rightarrow> NoiseType \<Rightarrow> real
     \<Rightarrow> error + AudioBuffer" where
  "createNoiseBuffer mul rnd minRate maxRate rate ty durationSec =
     (let len = mul rate durationSec in
      case createBuffer minRate maxRate 1 len rate of
        Inl e \<Rightarrow> Inl e
      | Inr buffer \<Rightarrow>
          (let data = channelData buffer in
           Inr (buffer\<lparr>channelData :=
             (case ty of
                white \<Rightarrow> whiteLoop rnd 0 len data
              | pink \<Rightarrow> pinkLoop rnd 0 len pinkInit data
              | brown \<Rightarrow> brownLoop rnd 0 len 0 data)\<rparr>)))"

text \<open>The documented sample range: every sample of the buffer lies in \<open>[-1, 1]\<close>.\<close>

definition samplesInUnitRange :: "AudioBuffer \<Rightarrow> bool" where
  "samplesInUnitRange buf = list_all (\<lambda>x. - 1 \<le> x \<and> x \<le> 1) (channelData buf)"

subsection \<open>Web Audio: parameters with an automation timeline\<close>

text \<open>
  The part of the Web Audio API the hook calls. An AudioParam has the value its getter
  returns and a timeline of scheduled events, kept in time order. The getter's value is
  the one the rendering thread last computed (\<open>advanceTo\<close> below), so reading
  \<open>param.value\<close> right after \<open>cancelScheduledValues\<close> still yields the in-flight value.
\<close>

datatype event = SetValueAtTime real real | LinearRampToValueAtTime real real

fun eventValue :: "event \<Rightarrow> real" where
  "eventValue (SetValueAtTime v t) = v"
| "eventValue (LinearRampToValueAtTime v t) = v"

fun eventTime :: "event \<Rightarrow> real" where
  "eventTime (SetValueAtTime v t) = t"
| "eventTime (LinearRampToValueAtTime v t) = t"

record AudioParam =
  pvalue :: real
  events :: "event list"

definition insertEvent :: "event \<Rightarrow> event list \<Rightarrow> event list" where
  "insertEvent e es =
     takeWhile (\<lambda>x. eventTime x \<le> eventTime e) es
       @ e # dropWhile (\<lambda>x. eventTime x \<le> eventTime e) es"

definition cancelScheduledValues :: "real \<Rightarrow> AudioParam \<Rightarrow> AudioParam" where
  "cancelScheduledValues t p = p\<lparr>events := filter (\<lambda>e. eventTime e < t) (events p)\<rparr>"

definition setValueAtTime :: "real \<Rightarrow> real \<Rightarrow> AudioParam \<Rightarrow> AudioParam" where
  "setValueAtTime v t p = p\<lparr>events := insertEvent (SetValueAtTime v t) (events p)\<rparr>"

definition linearRampToValueAtTime :: "real \<Rightarrow> real \<Rightarrow> AudioParam \<Rightarrow> AudioParam" where
  "linearRampToValueAtTime v t p =
     p\<lparr>events := insertEvent (LinearRampToValueAtTime v t) (events p)\<rparr>"

text \<open>The value of the timeline at time \<open>t\<close>, having reached value \<open>v0\<close> at time \<open>t0\<close>.\<close>

fun timelineValue :: "real \<Rightarrow> real \<Rightarrow> event list \<Rightarrow> real \<Rightarrow> real" where
  "timelineValue v0 t0 [] t = v0"
| "timelineValue v0 t0 (SetValueAtTime v te # es) t =
     (if t < te then v0 else timelineValue v te es t)"
| "timelineValue v0 t0 (LinearRampToValueAtTime v te # es) t =
     (if t < te then (if t \<le> t0 then v0 else v0 + (v - v0) * (t - t0) / (te - t0))
      else timelineValue v te es t)"

definition valueAt :: "AudioParam \<Rightarrow> real \<Rightarrow> real" where
  "valueAt p t = timelineValue (pvalue p) 0 (events p) t"

text \<open>The target the parameter is heading for: the value of its last scheduled event.\<close>

definition scheduledTarget :: "AudioParam \<Rightarrow> real" where
  "scheduledTarget p = (if events p = [] then pvalue p else eventValue (last (events p)))"

subsection \<open>Web Audio: nodes and the context\<close>

datatype NodeKind = GainNode | AudioBufferSourceNode | BiquadFilterNode | OscillatorNode
  | StereoPannerNode

datatype FilterType = lowpass | highpass | bandpass

datatype Target = ToNode nat | ToParam nat | ToDestination

text \<open>
  A node of the audio graph. \<open>param\<close> is the node's automatable parameter (\<open>gain\<close> of a
  gain node, \<open>frequency\<close> of a filter or an oscillator, \<open>pan\<close> of a panner). The buffer of a
  source node is recorded by its noise colour: its samples are those of
  \<open>createNoiseBuffer\<close> and play no part in how the graph is built or torn down.
\<close>

record AudioNode =
  kind :: NodeKind
  param :: AudioParam
  filterType :: FilterType
  qValue :: real
  buffer :: "NoiseType option"
  loop :: bool
  started :: bool
  stopTime :: "real option"
  outputs :: "Target list"

datatype ContextState = suspended | running

record AudioContext =
  currentTime :: real
  ctxState :: ContextState
  nodes :: "nat \<Rightarrow> AudioNode"
  nextId :: nat

definition freshNode :: "NodeKind \<Rightarrow> real \<Rightarrow> AudioNode" where
  "freshNode k v = \<lparr>kind = k, param = \<lparr>pvalue = v, events = []\<rparr>, filterType = lowpass,
     qValue = 1, buffer = None, loop = False, started = False, stopTime = None,
     outputs = []\<rparr>"

definition newAudioContext :: AudioContext where
  "newAudioContext = \<lparr>currentTime = 0, ctxState = suspended,
     nodes = (\<lambda>i. freshNode GainNode 1), nextId = 0\<rparr>"

text \<open>Creating a node: it takes the next free identity; \<open>v\<close> is the default value of
  its parameter.\<close>

definition allocNode :: "NodeKind \<Rightarrow> real \<Rightarrow> AudioContext \<Rightarrow> AudioContext" where
  "allocNode k v ctx = ctx\<lparr>nodes := (nodes ctx)(nextId ctx := freshNode k v),
                          nextId := nextId ctx + 1\<rparr>"

definition createNode :: "NodeKind \<Rightarrow> real \<Rightarrow> AudioContext \<Rightarrow> nat \<times> AudioContext" where
  "createNode k v ctx = (nextId ctx, allocNode k v ctx)"

definition createGain :: "AudioContext \<Rightarrow> nat \<times> AudioContext" where
  "createGain = createNode GainNode 1"

definition createBufferSource :: "AudioContext \<Rightarrow> nat \<times> AudioContext" where
  "createBufferSource = createNode AudioBufferSourceNode 1"

definition createBiquadFilter :: "AudioContext \<Rightarrow> nat \<times> AudioContext" where
  "createBiquadFilter = createNode BiquadFilterNode 350"

definition createOscillator :: "AudioContext \<Rightarrow> nat \<times> AudioContext" where
  "createOscillator = createNode OscillatorNode 440"

definition createStereoPanner :: "AudioContext \<Rightarrow> nat \<times> AudioContext" where
  "createStereoPanner = createNode StereoPannerNode 0"

definition updNode :: "nat \<Rightarrow> (AudioNode \<Rightarrow> AudioNode) \<Rightarrow> AudioContext \<Rightarrow> AudioContext" where
  "updNode i f ctx = ctx\<lparr>nodes := (nodes ctx)(i := f (nodes ctx i))\<rparr>"

definition updParam :: "nat \<Rightarrow> (AudioParam \<Rightarrow> AudioParam) \<Rightarrow> AudioContext \<Rightarrow> AudioContext" where
  "updParam i f = updNode i (\<lambda>n. n\<lparr>param := f (param n)\<rparr>)"

text \<open>\<open>node.param.value = v\<close>\<close>

definition setValue :: "nat \<Rightarrow> real \<Rightarrow> AudioContext \<Rightarrow> AudioContext" where
  "setValue i v = updParam i (\<lambda>p. p\<lparr>pvalue := v\<rparr>)"

definition getValue :: "nat \<Rightarrow> AudioContext \<Rightarrow> real" where
  "getValue i ctx = pvalue (param (nodes ctx i))"

definition setFilter :: "nat \<Rightarrow> FilterType \<Rightarrow> real \<Rightarrow> real \<Rightarrow> AudioContext \<Rightarrow> AudioContext" where
  "setFilter i ty freq q ctx =
     setValue i freq (updNode i (\<lambda>n. n\<lparr>filterType := ty, qValue := q\<rparr>) ctx)"

definition setBuffer :: "nat \<Rightarrow> NoiseType \<Rightarrow> AudioContext \<Rightarrow> AudioContext" where
  "setBuffer i ty = updNode i (\<lambda>n. n\<lparr>buffer := Some ty, loop := True\<rparr>)"

definition connect :: "nat \<Rightarrow> Target \<Rightarrow> AudioContext \<Rightarrow> AudioContext" where
  "connect i tgt = updNode i (\<lambda>n. n\<lparr>outputs := outputs n @ [tgt]\<rparr>)"

definition disconnect :: "nat \<Rightarrow> AudioContext \<Rightarrow> AudioContext" where
  "disconnect i = updNode i (\<lambda>n. n\<lparr>outputs := []\<rparr>)"

text \<open>\<open>node?.disconnect()\<close>\<close>

definition disconnectOpt :: "nat option \<Rightarrow> AudioContext \<Rightarrow> AudioContext" where
  "disconnectOpt io ctx = (case io of None \<Rightarrow> ctx | Some i \<Rightarrow> disconnect i ctx)"

text \<open>
  \<open>start()\<close> and \<open>stop(when)\<close> of a scheduled source (buffer source, oscillator): the API
  raises InvalidStateError when \<open>start\<close> is called a second time, and when \<open>stop\<close> is
  called on a source that was never started. The error leaves the context as it was.
\<close>

definition start :: "nat \<Rightarrow> AudioContext \<Rightarrow> (error \<times> AudioContext) + AudioContext" where
  "start i ctx =
     (if started (nodes ctx i) then Inl (InvalidStateError, ctx)
      else Inr (updNode i (\<lambda>n. n\<lparr>started := True\<rparr>) ctx))"

definition stop :: "nat \<Rightarrow> real \<Rightarrow> AudioContext \<Rightarrow> (error \<times> AudioContext) + AudioContext" where
  "stop i when ctx =
     (if \<not> started (nodes ctx i) then Inl (InvalidStateError, ctx)
      else Inr (updNode i (\<lambda>n. n\<lparr>stopTime := Some when\<rparr>) ctx))"

text \<open>\<open>try { node.stop(when) } catch { }\<close>\<close>

definition tryStop :: "nat \<Rightarrow> real \<Rightarrow> AudioContext \<Rightarrow> AudioContext" where
  "tryStop i when ctx = (case stop i when ctx of Inl (e, c) \<Rightarrow> c | Inr c \<Rightarrow> c)"

text \<open>\<open>osc?.stop()\<close>, outside any \<open>try\<close>\<close>

definition stopOpt :: "nat option \<Rightarrow> AudioContext \<Rightarrow> (error \<times> AudioContext) + AudioContext" where
  "stopOpt io ctx = (case io of None \<Rightarrow> Inr ctx | Some i \<Rightarrow> stop i (currentTime ctx) ctx)"

text \<open>\<open>ctx.resume()\<close> is asynchronous and the platform may refuse it; here it succeeds at
  once. Nothing proved below depends on the context's state.\<close>

definition resume :: "AudioContext \<Rightarrow> AudioContext" where
  "resume ctx = ctx\<lparr>ctxState := running\<rparr>"

text \<open>The audio clock reaches time \<open>t\<close>: every parameter's value follows its timeline.\<close>

definition advanceTo :: "real \<Rightarrow> AudioContext \<Rightarrow> AudioContext" where
  "advanceTo t ctx =
     ctx\<lparr>currentTime := t,
         nodes := (\<lambda>i. (nodes ctx i)\<lparr>param := (param (nodes ctx i))
                          \<lparr>pvalue := valueAt (param (nodes ctx i)) t\<rparr>\<rparr>)\<rparr>"

subsection \<open>The mode graph\<close>

datatype SoundMode = rain | wind | waves

definition FADE_TIME :: real where
  "FADE_TIME = 0.5"

record ModeNodes =
  source :: nat
  gain :: nat
  filterN :: "nat option"
  lfoOsc :: "nat option"
  lfoGain :: "nat option"
  spraySource :: "nat option"
  bodyGain :: "nat option"
  sprayGain :: "nat option"
  masterFilter :: "nat option"
  panNode :: "nat option"
  panOsc :: "nat option"
  panGain :: "nat option"

text \<open>\<open>stopModeNodes(nodes, ctx, fadeOut)\<close>\<close>

definition stopModeNodes ::
  "ModeNodes option \<Rightarrow> bool \<Rightarrow> AudioContext \<Rightarrow> (error \<times> AudioContext) + AudioContext" where
  "stopModeNodes nodesOpt fadeOut ctx =
     (case nodesOpt of
        None \<Rightarrow> Inr ctx
      | Some n \<Rightarrow>
          (let now = currentTime ctx;
               c1 = (if fadeOut
                     then (let c = updParam (gain n) (cancelScheduledValues now) ctx;
                               c = updParam (gain n) (setValueAtTime (getValue (gain n) c) now) c
                           in updParam (gain n) (linearRampToValueAtTime 0 (now + FADE_TIME)) c)
                     else ctx);
               c2 = tryStop (source n) (now + (if fadeOut then FADE_TIME else 0)) c1;
               c3 = (case spraySource n of
                       None \<Rightarrow> c2
                     | Some sp \<Rightarrow> tryStop sp (now + (if fadeOut then FADE_TIME else 0)) c2);
               c4 = disconnect (source n) c3;
               c5 = disconnectOpt (spraySource n) c4;
               c6 = disconnect (gain n) c5;
               c7 = disconnectOpt (bodyGain n) c6;
               c8 = disconnectOpt (sprayGain n) c7;
               c9 = disconnectOpt (filterN n) c8;
               c10 = disconnectOpt (masterFilter n) c9;
               c11 = disconnectOpt (panNode n) c10
           in case stopOpt (lfoOsc n) c11 of
                Inl err \<Rightarrow> Inl err
              | Inr c12 \<Rightarrow>
                  (let c13 = disconnectOpt (lfoOsc n) c12;
                       c14 = disconnectOpt (lfoGain n) c13
                   in case stopOpt (panOsc n) c14 of
                        Inl err \<Rightarrow> Inl err
                      | Inr c15 \<Rightarrow>
                          Inr (disconnectOpt (panGain n) (disconnectOpt (panOsc n) c15)))))"

text \<open>The waves branch of \<open>buildModeNodes\<close>; \<open>g\<close> is the output gain created first and
  \<open>masterRef\<close> is \<open>masterGainRef.current\<close> (connecting to a null master raises TypeError).\<close>

definition buildWaves ::
  "nat option \<Rightarrow> nat \<Rightarrow> AudioContext
     \<Rightarrow> (error \<times> AudioContext) + (ModeNodes \<times> AudioContext)" where
  "buildWaves masterRef g ctx0 =
     (let (bodySource, c) = createBufferSource ctx0;
          c = setBuffer bodySource brown c;
          (bodyLPF, c) = createBiquadFilter c;
          c = setFilter bodyLPF lowpass 400 0.7 c;
          (bodyGain', c) = createGain c;
          c = setValue bodyGain' 0.25 c;
          c = connect bodySource (ToNode bodyLPF) c;
          c = connect bodyLPF (ToNode bodyGain') c;
          (spraySource', c) = createBufferSource c;
          c = setBuffer spraySource' pink c;
          (sprayHPF, c) = createBiquadFilter c;
          c = setFilter sprayHPF highpass 700 0.7 c;
          (sprayGain', c) = createGain c;
          c = setValue sprayGain' 0.0 c;
          c = connect spraySource' (ToNode sprayHPF) c;
          c = connect sprayHPF (ToNode sprayGain') c;
          (panNode', c) = createStereoPanner c;
          c = connect bodyGain' (ToNode panNode') c;
          c = connect sprayGain' (ToNode panNode') c;
          (masterFilter', c) = createBiquadFilter c;
          c = setFilter masterFilter' lowpass 2500 0.9 c;
          c = connect panNode' (ToNode masterFilter') c;
          c = connect masterFilter' (ToNode g) c;
          (lfoOsc', c) = createOscillator c;
          (lfoGain', c) = createGain c;
          c = setValue lfoOsc' 0.12 c;
          c = setValue lfoGain' 1.0 c;
          c = connect lfoOsc' (ToNode lfoGain') c;
          (bodyModGain, c) = createGain c;
          c = setValue bodyModGain 0.2 c;
          c = connect lfoGain' (ToNode bodyModGain) c;
          c = connect bodyModGain (ToParam bodyGain') c;
          (sprayModGain, c) = createGain c;
          c = setValue sprayModGain 0.25 c;
          c = connect lfoGain' (ToNode sprayModGain) c;
          c = connect sprayModGain (ToParam sprayGain') c;
          (filterModGain, c) = createGain c;
          c = setValue filterModGain 1500 c;
          c = connect lfoGain' (ToNode filterModGain) c;
          c = connect filterModGain (ToParam masterFilter') c;
          c = setValue masterFilter' 2500 c;
          (panOsc', c) = createOscillator c;
          (panGain', c) = createGain c;
          c = setValue panOsc' 0.05 c;
          c = setValue panGain' 0.3 c;
          c = connect panOsc' (ToNode panGain') c;
          c = connect panGain' (ToParam panNode') c
      in case start lfoOsc' c of
           Inl err \<Rightarrow> Inl err
         | Inr c \<Rightarrow>
       (case start panOsc' c of
           Inl err \<Rightarrow> Inl err
         | Inr c \<Rightarrow>
       (case start bodySource c of
           Inl err \<Rightarrow> Inl err
         | Inr c \<Rightarrow>
       (case start spraySource' c of
           Inl err \<Rightarrow> Inl err
         | Inr c \<Rightarrow>
           (case masterRef of
              None \<Rightarrow> Inl (TypeError, c)
            | Some master \<Rightarrow>
                (let c = connect g (ToNode master) c
                 in Inr (\<lparr>source = bodySource, gain = g, filterN = None,
                           lfoOsc = Some lfoOsc', lfoGain = Some lfoGain',
                           spraySource = Some spraySource', bodyGain = Some bodyGain',
                           sprayGain = Some sprayGain', masterFilter = Some masterFilter',
                           panNode = Some panNode', panOsc = Some panOsc',
                           panGain = Some panGain'\<rparr>, c)))))))"

text \<open>\<open>buildModeNodes(ctx, mode)\<close>. \<open>masterRef\<close> is \<open>masterGainRef.current\<close>; connecting to a
  null master raises TypeError.\<close>

definition buildModeNodes ::
  "nat option \<Rightarrow> SoundMode \<Rightarrow> AudioContext
     \<Rightarrow> (error \<times> AudioContext) + (ModeNodes \<times> AudioContext)" where
  "buildModeNodes masterRef md ctx0 =
     (let (g, c) = createGain ctx0 in
      if md = waves
      then buildWaves masterRef g c
      else
        (let (src, c) = createBufferSource c;
             c = setBuffer src pink c
         in case (if md = rain
                  then (let (f, c) = createBiquadFilter c;
                            c = setFilter f lowpass 3000 0.7 c;
                            c = connect src (ToNode f) c;
                            c = connect f (ToNode g) c
                        in Inr (Some f, None, None, c))
                  else (let (f, c) = createBiquadFilter c;
                            c = setFilter f bandpass 600 1.2 c;
                            (lo, c) = createOscillator c;
                            (lg, c) = createGain c;
                            c = setValue lo 0.1 c;
                            c = setValue lg 300 c;
                            c = connect lo (ToNode lg) c;
                            c = connect lg (ToParam f) c
                        in case start lo c of
                             Inl err \<Rightarrow> Inl err
                           | Inr c \<Rightarrow>
                               (let c = connect src (ToNode f) c;
                                    c = connect f (ToNode g) c
                                in Inr (Some f, Some lo, Some lg, c)))) of
              Inl err \<Rightarrow> Inl err
            | Inr (f, lo, lg, c) \<Rightarrow>
                (case masterRef of
                   None \<Rightarrow> Inl (TypeError, c)
                 | Some master \<Rightarrow>
                     Inr (\<lparr>source = src, gain = g, filterN = f, lfoOsc = lo, lfoGain = lg,
                           spraySource = None, bodyGain = None, sprayGain = None,
                           masterFilter = None, panNode = None, panOsc = None,
                           panGain = None\<rparr>, connect g (ToNode master) c))))"

subsection \<open>The hook: React state, refs and closures\<close>

text \<open>
  \<open>useAudioEngine\<close> keeps three React state cells (\<open>mode\<close>, \<open>enabled\<close>, \<open>volume\<close>) and three
  refs. The functions it returns are closures of one render: inside them \<open>mode\<close>,
  \<open>enabled\<close> and \<open>volume\<close> are the constants of that render, and a call of
  \<open>setEnabledState\<close> (or \<open>setModeState\<close>, \<open>setVolumeState\<close>) changes the state cell for the
  next render, not the constant. \<open>Render\<close> holds the constants a closure sees, together
  with the timer store's \<open>isRunning\<close> and \<open>isBreak\<close>; \<open>Engine\<close> holds the state cells and
  the refs.
\<close>

record Render =
  mode :: SoundMode
  enabled :: bool
  volume :: real
  isRunning :: bool
  isBreak :: bool

record Engine =
  modeState :: SoundMode
  enabledState :: bool
  volumeState :: real
  audioCtxRef :: "AudioContext option"
  masterGainRef :: "nat option"
  currentNodesRef :: "ModeNodes option"

definition initialEngine :: Engine where
  "initialEngine = \<lparr>modeState = rain, enabledState = False, volumeState = 0.4,
     audioCtxRef = None, masterGainRef = None, currentNodesRef = None\<rparr>"

definition ensureContext :: "Engine \<Rightarrow> AudioContext \<times> Engine" where
  "ensureContext s =
     (case audioCtxRef s of
        None \<Rightarrow>
          (let ctx = newAudioContext;
               (master, ctx) = createGain ctx;
               ctx = setValue master 0 ctx;
               ctx = connect master ToDestination ctx
           in (ctx, s\<lparr>audioCtxRef := Some ctx, masterGainRef := Some master\<rparr>))
      | Some ctx \<Rightarrow> (ctx, s))"

definition resumeContextIfNeeded :: "Engine \<Rightarrow> AudioContext \<times> Engine" where
  "resumeContextIfNeeded s =
     (let (ctx, s1) = ensureContext s;
          ctx = (if ctxState ctx = suspended then resume ctx else ctx)
      in (ctx, s1\<lparr>audioCtxRef := Some ctx\<rparr>))"

definition startMode :: "Render \<Rightarrow> SoundMode \<Rightarrow> Engine \<Rightarrow> (error \<times> Engine) + Engine" where
  "startMode r newMode s =
     (let (ctx, s1) = resumeContextIfNeeded s;
          now = currentTime ctx;
          ctx = (if ctxState ctx = suspended then resume ctx else ctx);
          oldNodes = currentNodesRef s1
      in case (case oldNodes of
                 None \<Rightarrow> Inr ctx
               | Some old \<Rightarrow> stopModeNodes (Some old) True ctx) of
           Inl (err, ctx) \<Rightarrow> Inl (err, s1\<lparr>audioCtxRef := Some ctx\<rparr>)
         | Inr ctx \<Rightarrow>
             (case buildModeNodes (masterGainRef s1) newMode ctx of
                Inl (err, ctx) \<Rightarrow> Inl (err, s1\<lparr>audioCtxRef := Some ctx\<rparr>)
              | Inr (nodes', ctx) \<Rightarrow>
                  (let s2 = s1\<lparr>currentNodesRef := Some nodes'\<rparr>;
                       ctx = updParam (gain nodes') (setValueAtTime 0 now) ctx
                   in case start (source nodes') ctx of
                        Inl (err, ctx) \<Rightarrow> Inl (err, s2\<lparr>audioCtxRef := Some ctx\<rparr>)
                      | Inr ctx \<Rightarrow>
                          (let target = (if enabled r then volume r else 0);
                               ctx = updParam (gain nodes')
                                       (linearRampToValueAtTime target (now + FADE_TIME)) ctx
                           in Inr (s2\<lparr>audioCtxRef := Some ctx\<rparr>)))))"

definition stopAll :: "Engine \<Rightarrow> (error \<times> Engine) + Engine" where
  "stopAll s =
     (case audioCtxRef s of
        None \<Rightarrow> Inr s
      | Some ctx \<Rightarrow>
          (let now = currentTime ctx;
               ctx = (case masterGainRef s of
                        None \<Rightarrow> ctx
                      | Some master \<Rightarrow>
                          (let c = updParam master (cancelScheduledValues now) ctx;
                               c = updParam master (setValueAtTime (getValue master c) now) c
                           in updParam master (linearRampToValueAtTime 0 (now + FADE_TIME)) c))
           in case stopModeNodes (currentNodesRef s) True ctx of
                Inl (err, ctx) \<Rightarrow> Inl (err, s\<lparr>audioCtxRef := Some ctx\<rparr>)
              | Inr ctx \<Rightarrow> Inr (s\<lparr>audioCtxRef := Some ctx, currentNodesRef := None\<rparr>)))"

text \<open>The public API. \<open>r\<close> is the render whose closure is called.\<close>

definition setMode :: "Render \<Rightarrow> SoundMode \<Rightarrow> Engine \<Rightarrow> (error \<times> Engine) + Engine" where
  "setMode r newMode s =
     (let s = s\<lparr>modeState := newMode\<rparr>
      in if \<not> enabled r then Inr s else startMode r newMode s)"

definition setEnabled :: "Render \<Rightarrow> bool \<Rightarrow> Engine \<Rightarrow> (error \<times> Engine) + Engine" where
  "setEnabled r on s =
     (let s = s\<lparr>enabledState := on\<rparr>
      in if on
         then (let (ctx, s) = resumeContextIfNeeded s in startMode r (mode r) s)
         else stopAll s)"

definition setVolume :: "Render \<Rightarrow> real \<Rightarrow> Engine \<Rightarrow> (error \<times> Engine) + Engine" where
  "setVolume r v s =
     (let clamped = max 0 (min 1 v);
          s = s\<lparr>volumeState := clamped\<rparr>
      in case audioCtxRef s of
           None \<Rightarrow> Inr s
         | Some ctx \<Rightarrow>
             (case currentNodesRef s of
                None \<Rightarrow> Inr s
              | Some n \<Rightarrow>
                  (let now = currentTime ctx;
                       ctx = updParam (gain n) (cancelScheduledValues now) ctx;
                       ctx = updParam (gain n) (setValueAtTime (getValue (gain n) ctx) now) ctx;
                       ctx = updParam (gain n) (linearRampToValueAtTime clamped (now + 0.2)) ctx
                   in Inr (s\<lparr>audioCtxRef := Some ctx\<rparr>))))"

text \<open>The effect with dependencies \<open>[isRunning, isBreak, enabled, volume]\<close>.\<close>

definition masterGainEffect :: "Render \<Rightarrow> Engine \<Rightarrow> Engine" where
  "masterGainEffect r s =
     (case audioCtxRef s of
        None \<Rightarrow> s
      | Some ctx \<Rightarrow>
          (case masterGainRef s of
             None \<Rightarrow> s
           | Some master \<Rightarrow>
               (let now = currentTime ctx;
                    target = (if \<not> enabled r then 0
                              else if isRunning r \<and> \<not> isBreak r then 1 else 0.3);
                    ctx = updParam master (cancelScheduledValues now) ctx;
                    ctx = updParam master (setValueAtTime (getValue master ctx) now) ctx;
                    ctx = updParam master
                            (linearRampToValueAtTime (target * volume r) (now + 0.5)) ctx
                in s\<lparr>audioCtxRef := Some ctx\<rparr>)))"

text \<open>The first-gesture handler (its listener bookkeeping left out).\<close>

definition unlockHandler :: "Engine \<Rightarrow> Engine" where
  "unlockHandler s = snd (resumeContextIfNeeded s)"

subsection \<open>Renders and user events\<close>

text \<open>
  The render of a state with the timer store's values. A user event calls a closure of
  the current render; React then renders again with the updated state cells (also when
  the handler threw: the updates it had queued are applied) and runs the master-gain
  effect when one of its dependencies changed.
\<close>

definition render :: "bool \<Rightarrow> bool \<Rightarrow> Engine \<Rightarrow> Render" where
  "render timerRunning timerBreak s = \<lparr>mode = modeState s, enabled = enabledState s,
     volume = volumeState s, isRunning = timerRunning, isBreak = timerBreak\<rparr>"

definition stateOf :: "(error \<times> Engine) + Engine \<Rightarrow> Engine" where
  "stateOf res = (case res of Inl (err, s) \<Rightarrow> s | Inr s \<Rightarrow> s)"

definition thrown :: "(error \<times> Engine) + Engine \<Rightarrow> error option" where
  "thrown res = (case res of Inl (err, s) \<Rightarrow> Some err | Inr s \<Rightarrow> None)"

definition rerender :: "Render \<Rightarrow> Engine \<Rightarrow> Engine" where
  "rerender r s =
     (let r' = render (isRunning r) (isBreak r) s
      in if enabled r' \<noteq> enabled r \<or> volume r' \<noteq> volume r then masterGainEffect r' s else s)"

definition userEvent ::
  "bool \<Rightarrow> bool \<Rightarrow> (Render \<Rightarrow> Engine \<Rightarrow> (error \<times> Engine) + Engine) \<Rightarrow> Engine \<Rightarrow> Engine" where
  "userEvent timerRunning timerBreak handler s =
     (let r = render timerRunning timerBreak s in rerender r (stateOf (handler r s)))"

text \<open>The audio clock of the engine's context (if any) reaches \<open>t\<close>.\<close>

definition tick :: "real \<Rightarrow> Engine \<Rightarrow> Engine" where
  "tick t s = s\<lparr>audioCtxRef := map_option (advanceTo t) (audioCtxRef s)\<rparr>"

text \<open>Observations of the current graph's output gain and of the master gain.\<close>

definition outputGain :: "Engine \<Rightarrow> AudioParam option" where
  "outputGain s =
     (case audioCtxRef s of
        None \<Rightarrow> None
      | Some ctx \<Rightarrow> map_option (\<lambda>n. param (nodes ctx (gain n))) (currentNodesRef s))"

definition masterGain :: "Engine \<Rightarrow> AudioParam option" where
  "masterGain s =
     (case audioCtxRef s of
        None \<Rightarrow> None
      | Some ctx \<Rightarrow> map_option (\<lambda>m. param (nodes ctx m)) (masterGainRef s))"

subsection \<open>Operations as transitions, and the master-gain invariant\<close>

text \<open>
  Everything that acts on the engine while the hook is mounted: the three public
  operations (called from any render, also a stale one), the master-gain effect, the
  first-gesture handler and the passing of audio time. A handler that throws leaves the
  state it had reached.
\<close>

datatype action = SetMode Render SoundMode | SetEnabled Render bool | SetVolume Render real
  | MasterGainEffect Render | UnlockGesture | Tick real

fun step :: "action \<Rightarrow> Engine \<Rightarrow> Engine" where
  "step (SetMode r m) s = stateOf (setMode r m s)"
| "step (SetEnabled r on) s = stateOf (setEnabled r on s)"
| "step (SetVolume r v) s = stateOf (setVolume r v s)"
| "step (MasterGainEffect r) s = masterGainEffect r s"
| "step UnlockGesture s = unlockHandler s"
| "step (Tick t) s = tick t s"

definition run :: "action list \<Rightarrow> Engine \<Rightarrow> Engine" where
  "run acts s = foldl (\<lambda>s a. step a s) s acts"

text \<open>
  The invariant of C9: context and master gain exist together; the master gain is a gain
  node whose only connection goes to the destination; no other node of the context
  connects to the destination; the output gain of the current graph connects to the
  master gain and to nothing else.
\<close>

definition masterInv :: "Engine \<Rightarrow> bool" where
  "masterInv s =
     (case audioCtxRef s of
        None \<Rightarrow> masterGainRef s = None \<and> currentNodesRef s = None
      | Some ctx \<Rightarrow>
          (case masterGainRef s of
             None \<Rightarrow> False
           | Some m \<Rightarrow>
               m < nextId ctx \<and> kind (nodes ctx m) = GainNode
               \<and> outputs (nodes ctx m) = [ToDestination]
               \<and> list_all (\<lambda>i. i = m \<or> ToDestination \<notin> set (outputs (nodes ctx i)))
                    [0..<nextId ctx]
               \<and> (case currentNodesRef s of
                     None \<Rightarrow> True
                   | Some n \<Rightarrow> outputs (nodes ctx (gain n)) = [ToNode m])))"

text \<open>
  \<open>persists c c'\<close>: \<open>c'\<close> is the context \<open>c\<close> at a later moment, not a new one: no node
  identity was given up, and every node \<open>c\<close> had is of the same kind in \<open>c'\<close> and, if it
  was started, still started.
\<close>

definition persists :: "AudioContext \<Rightarrow> AudioContext \<Rightarrow> bool" where
  "persists c c' \<longleftrightarrow>
     nextId c \<le> nextId c'
     \<and> (\<forall>i<nextId c. kind (nodes c' i) = kind (nodes c i)
                       \<and> (started (nodes c i) \<longrightarrow> started (nodes c' i)))"

text \<open>The identities held by a \<open>ModeNodes\<close> object.\<close>

definition optId :: "nat option \<Rightarrow> nat list" where
  "optId io = (case io of None \<Rightarrow> [] | Some i \<Rightarrow> [i])"

definition nodeIds :: "ModeNodes \<Rightarrow> nat list" where
  "nodeIds n = source n # gain n # optId (filterN n) @ optId (lfoOsc n) @ optId (lfoGain n)
     @ optId (spraySource n) @ optId (bodyGain n) @ optId (sprayGain n)
     @ optId (masterFilter n) @ optId (panNode n) @ optId (panOsc n) @ optId (panGain n)"

text \<open>
  Auxiliary notions for the invariant's proof. \<open>shrinks D c c'\<close>: from \<open>c\<close> to \<open>c'\<close> no node
  was created, no node changed its kind, started sources stay started, and connections
  were left alone or, for nodes in \<open>D\<close>, removed altogether.
\<close>

definition shrinks :: "nat set \<Rightarrow> AudioContext \<Rightarrow> AudioContext \<Rightarrow> bool" where
  "shrinks D c c' \<longleftrightarrow>
     nextId c' = nextId c
     \<and> (\<forall>j. kind (nodes c' j) = kind (nodes c j)
            \<and> (outputs (nodes c' j) = outputs (nodes c j) \<or> j \<in> D \<and> outputs (nodes c' j) = [])
            \<and> (started (nodes c j) \<longrightarrow> started (nodes c' j)))"

text \<open>\<open>evolves s s'\<close>: from \<open>s\<close> to \<open>s'\<close> the master gain ref, once set, kept its node, and the
  context, once there, persisted.\<close>

definition evolves :: "Engine \<Rightarrow> Engine \<Rightarrow> bool" where
  "evolves s s' \<longleftrightarrow>
     (\<forall>m. masterGainRef s = Some m \<longrightarrow> masterGainRef s' = Some m)
     \<and> (\<forall>c. audioCtxRef s = Some c \<longrightarrow> (\<exists>c'. audioCtxRef s' = Some c' \<and> persists c c'))"

definition ctxInv :: "nat \<Rightarrow> AudioContext \<Rightarrow> bool" where
  "ctxInv m c \<longleftrightarrow>
     m < nextId c \<and> kind (nodes c m) = GainNode \<and> outputs (nodes c m) = [ToDestination]
     \<and> (\<forall>i. i \<noteq> m \<longrightarrow> ToDestination \<notin> set (outputs (nodes c i)))"

definition graphInv :: "nat \<Rightarrow> AudioContext \<Rightarrow> ModeNodes \<Rightarrow> bool" where
  "graphInv m c n \<longleftrightarrow>
     (\<forall>i\<in>set (nodeIds n). i < nextId c \<and> i \<noteq> m)
     \<and> (\<forall>i. lfoOsc n = Some i \<longrightarrow> started (nodes c i))
     \<and> (\<forall>i. panOsc n = Some i \<longrightarrow> started (nodes c i))
     \<and> outputs (nodes c (gain n)) = [ToNode m]"

definition engineInv :: "Engine \<Rightarrow> bool" where
  "engineInv s =
     (case audioCtxRef s of
        None \<Rightarrow> masterGainRef s = None \<and> currentNodesRef s = None
      | Some c \<Rightarrow>
          (case masterGainRef s of
             None \<Rightarrow> False
           | Some m \<Rightarrow>
               ctxInv m c
               \<and> (case currentNodesRef s of None \<Rightarrow> True | Some n \<Rightarrow> graphInv m c n)))"

subsection \<open>Auxiliary definitions for the proofs\<close>

text \<open>A random source that returns the same draw every time.\<close>

definition constantDraws :: "real \<Rightarrow> nat \<Rightarrow> real" where
  "constantDraws c i = c"

text \<open>The pink filter state after \<open>k\<close> iterations that all drew the same \<open>w\<close>.\<close>

fun pinkIter :: "real \<Rightarrow> nat \<Rightarrow> pinkState" where
  "pinkIter w 0 = pinkInit"
| "pinkIter w (Suc k) = fst (pinkStep w (pinkIter w k))"

text \<open>The buffer holds exactly \<open>x\<close> samples.\<close>

definition hasSampleCount :: "real \<Rightarrow> AudioBuffer \<Rightarrow> bool" where
  "hasSampleCount x buf \<longleftrightarrow> real (length (channelData buf)) = x"

text \<open>Bounds the pink filter state never leaves when the draws lie in \<open>[0, 1)\<close>.\<close>

definition pinkInv :: "pinkState \<Rightarrow> bool" where
  "pinkInv s \<longleftrightarrow> \<bar>b0 s\<bar> \<le> 48.7 \<and> \<bar>b1 s\<bar> \<le> 11.24 \<and> \<bar>b2 s\<bar> \<le> 4.97 \<and> \<bar>b3 s\<bar> \<le> 2.33
     \<and> \<bar>b4 s\<bar> \<le> 1.19 \<and> \<bar>b5 s\<bar> \<le> 0.071 \<and> \<bar>b6 s\<bar> \<le> 0.116"

text \<open>The node with identity \<open>i\<close> in the engine's context.\<close>

definition nodeAt :: "Engine \<Rightarrow> nat \<Rightarrow> AudioNode option" where
  "nodeAt s i = map_option (\<lambda>ctx. nodes ctx i) (audioCtxRef s)"

text \<open>
  Scenario states. \<open>enabledOnce\<close>: the user switches the sound on in the initial state
  (timer idle). \<open>enabledTwice\<close>: \<open>setEnabled(true)\<close> is called again from the next render.
  \<open>playingRain\<close>: after switching on, the clock reaches 0.1 s, the volume is set to 0.5,
  and the clock reaches 1 s.
\<close>

definition enabledOnce :: Engine where
  "enabledOnce = userEvent False False (\<lambda>r. setEnabled r True) initialEngine"

definition enabledTwice :: Engine where
  "enabledTwice = userEvent False False (\<lambda>r. setEnabled r True) enabledOnce"

definition playingRain :: Engine where
  "playingRain =
     tick 1 (userEvent False False (\<lambda>r. setVolume r 0.5) (tick 0.1 enabledOnce))"

text \<open>An engine that has a context \<open>c\<close> and the master gain \<open>m\<close>, both in order.\<close>

definition ready :: "Engine \<Rightarrow> AudioContext \<Rightarrow> nat \<Rightarrow> bool" where
  "ready s c m \<longleftrightarrow> audioCtxRef s = Some c \<and> masterGainRef s = Some m \<and> ctxInv m c
     \<and> (\<forall>n. currentNodesRef s = Some n \<longrightarrow> graphInv m c n)"

section \<open>Properties\<close>

subsection \<open>Noise buffers\<close>

lemma list_all_update:
  "list_all P xs \<Longrightarrow> P v \<Longrightarrow> list_all P (xs[i := v])"
  using set_update_subset_insert [of xs i v] by (auto simp: list_all_iff)

lemma draw_range: "0 \<le> (r::real) \<Longrightarrow> r < 1 \<Longrightarrow> \<bar>r * 2 - 1\<bar> \<le> 1"
  by (simp add: abs_le_iff)

lemma whiteLoop_length: "length (whiteLoop rnd i len data) = length data"
  by (induction rnd i len data rule: whiteLoop.induct) (simp add: whiteLoop.simps)

lemma pinkLoop_unfold:
  "real i < len \<Longrightarrow> pinkStep (rnd i * 2 - 1) s = (s', pk)
     \<Longrightarrow> pinkLoop rnd i len s data = pinkLoop rnd (i + 1) len s' (data[i := pk * 0.11])"
  by (subst pinkLoop.simps) simp

lemma pinkLoop_done: "\<not> real i < len \<Longrightarrow> pinkLoop rnd i len s data = data"
  by (subst pinkLoop.simps) simp

lemma brownLoop_unfold:
  "real i < len \<Longrightarrow> brownLoop rnd i len lastOut data
     = brownLoop rnd (i + 1) len ((lastOut + 0.02 * (rnd i * 2 - 1)) / 1.02)
         (data[i := (lastOut + 0.02 * (rnd i * 2 - 1)) / 1.02 * 3.5])"
  by (subst brownLoop.simps) (simp only: Let_def if_True)

lemma brownLoop_done: "\<not> real i < len \<Longrightarrow> brownLoop rnd i len lastOut data = data"
  by (subst brownLoop.simps) simp

lemma pinkLoop_length: "length (pinkLoop rnd i len s data) = length data"
proof (induction rnd i len s data rule: pinkLoop.induct)
  case (1 rnd i len s data)
  show ?case
  proof (cases "real i < len")
    case True
    obtain s' pk where st: "pinkStep (rnd i * 2 - 1) s = (s', pk)"
      by (cases "pinkStep (rnd i * 2 - 1) s")
    from "1" [OF True st [symmetric]] pinkLoop_unfold [of i len rnd s s' pk data, OF True st] show ?thesis
      by simp
  next
    case False
    then show ?thesis by (simp add: pinkLoop_done)
  qed
qed

lemma brownLoop_length: "length (brownLoop rnd i len lastOut data) = length data"
proof (induction rnd i len lastOut data rule: brownLoop.induct)
  case (1 rnd i len lastOut data)
  show ?case
  proof (cases "real i < len")
    case True
    from "1" [OF True refl refl] brownLoop_unfold [OF True] show ?thesis
      by simp
  next
    case False
    then show ?thesis by (simp add: brownLoop_done)
  qed
qed

lemma whiteLoop_bound:
  "\<forall>k. 0 \<le> rnd k \<and> rnd k < 1 \<Longrightarrow> list_all (\<lambda>x. \<bar>x\<bar> \<le> 1) data
     \<Longrightarrow> list_all (\<lambda>x. \<bar>x\<bar> \<le> 1) (whiteLoop rnd i len data)"
proof (induction rnd i len data rule: whiteLoop.induct)
  case (1 rnd i len data)
  show ?case
  proof (cases "real i < len")
    case True
    have "\<bar>rnd i * 2 - 1\<bar> \<le> 1" using "1.prems"(1) by (simp add: draw_range)
    with "1.prems" have "list_all (\<lambda>x. \<bar>x\<bar> \<le> 1) (data[i := rnd i * 2 - 1])"
      by (simp add: list_all_update)
    with "1.IH" [OF True "1.prems"(1)] True show ?thesis
      by (simp add: whiteLoop.simps [of rnd i])
  next
    case False
    with "1.prems" show ?thesis by (simp add: whiteLoop.simps [of rnd i])
  qed
qed

lemma brown_step_bound:
  "\<bar>lastOut\<bar> \<le> 1 \<Longrightarrow> \<bar>w\<bar> \<le> 1 \<Longrightarrow> \<bar>(lastOut + 0.02 * w) / 1.02\<bar> \<le> (1::real)"
  by (simp add: abs_le_iff)

lemma brownLoop_bound:
  "\<forall>k. 0 \<le> rnd k \<and> rnd k < 1 \<Longrightarrow> \<bar>lastOut\<bar> \<le> 1 \<Longrightarrow> list_all (\<lambda>x. \<bar>x\<bar> \<le> 3.5) data
     \<Longrightarrow> list_all (\<lambda>x. \<bar>x\<bar> \<le> 3.5) (brownLoop rnd i len lastOut data)"
proof (induction rnd i len lastOut data rule: brownLoop.induct)
  case (1 rnd i len lastOut data)
  show ?case
  proof (cases "real i < len")
    case True
    define w where "w = rnd i * 2 - 1"
    define l' where "l' = (lastOut + 0.02 * w) / 1.02"
    have w: "\<bar>w\<bar> \<le> 1" using "1.prems"(1) by (simp add: w_def draw_range)
    have l': "\<bar>l'\<bar> \<le> 1" unfolding l'_def using "1.prems"(2) w by (rule brown_step_bound)
    then have "\<bar>l' * 3.5\<bar> \<le> 3.5" by (simp add: abs_le_iff)
    with "1.prems"(3) have d: "list_all (\<lambda>x. \<bar>x\<bar> \<le> 3.5) (data[i := l' * 3.5])"
      by (simp add: list_all_update)
    have "brownLoop rnd i len lastOut data = brownLoop rnd (i + 1) len l' (data[i := l' * 3.5])"
      unfolding l'_def w_def using True by (rule brownLoop_unfold)
    with "1.IH" [OF True w_def l'_def "1.prems"(1) l' d] show ?thesis
      by simp
  next
    case False
    with "1.prems" show ?thesis by (simp add: brownLoop_done)
  qed
qed

lemma lin_bound:
  fixes a b c w B :: real
  assumes "\<bar>b\<bar> \<le> B" "\<bar>w\<bar> \<le> 1" "\<bar>a\<bar> * B + \<bar>c\<bar> \<le> B"
  shows "\<bar>a * b + w * c\<bar> \<le> B"
proof -
  have "\<bar>a * b + w * c\<bar> \<le> \<bar>a\<bar> * \<bar>b\<bar> + \<bar>w\<bar> * \<bar>c\<bar>"
    using abs_triangle_ineq [of "a * b" "w * c"] by (simp add: abs_mult)
  also have "\<dots> \<le> \<bar>a\<bar> * B + 1 * \<bar>c\<bar>"
    using assms(1,2) by (intro add_mono mult_left_mono mult_right_mono) simp_all
  finally show ?thesis using assms(3) by simp
qed

lemma pinkStep_bound:
  assumes "pinkInv s" "\<bar>w\<bar> \<le> 1" "pinkStep w s = (s', pk)"
  shows "pinkInv s' \<and> \<bar>pk * 0.11\<bar> \<le> 7.61"
proof -
  from assms(1) have b: "\<bar>b0 s\<bar> \<le> 48.7" "\<bar>b1 s\<bar> \<le> 11.24" "\<bar>b2 s\<bar> \<le> 4.97" "\<bar>b3 s\<bar> \<le> 2.33"
     "\<bar>b4 s\<bar> \<le> 1.19" "\<bar>b5 s\<bar> \<le> 0.071" "\<bar>b6 s\<bar> \<le> 0.116"
    by (simp_all add: pinkInv_def)
  from assms(3) have s': "b0 s' = 0.99886 * b0 s + w * 0.0555179"
     "b1 s' = 0.99332 * b1 s + w * 0.0750759"
     "b2 s' = 0.969 * b2 s + w * 0.153852"
     "b3 s' = 0.8665 * b3 s + w * 0.3104856"
     "b4 s' = 0.55 * b4 s + w * 0.5329522"
     "b5 s' = - 0.7616 * b5 s - w * 0.016898"
     "b6 s' = w * 0.115926"
    and pk: "pk = b0 s' + b1 s' + b2 s' + b3 s' + b4 s' + b5 s' + b6 s + w * 0.5362"
    by (auto simp: pinkStep_def Let_def)
  have n0: "\<bar>b0 s'\<bar> \<le> 48.7" unfolding s' using b(1) assms(2) by (rule lin_bound) simp
  have n1: "\<bar>b1 s'\<bar> \<le> 11.24" unfolding s' using b(2) assms(2) by (rule lin_bound) simp
  have n2: "\<bar>b2 s'\<bar> \<le> 4.97" unfolding s' using b(3) assms(2) by (rule lin_bound) simp
  have n3: "\<bar>b3 s'\<bar> \<le> 2.33" unfolding s' using b(4) assms(2) by (rule lin_bound) simp
  have n4: "\<bar>b4 s'\<bar> \<le> 1.19" unfolding s' using b(5) assms(2) by (rule lin_bound) simp
  have "\<bar>(- 0.7616) * b5 s + w * (- 0.016898)\<bar> \<le> 0.071"
    using b(6) assms(2) by (rule lin_bound) simp
  then have n5: "\<bar>b5 s'\<bar> \<le> 0.071" by (simp add: s')
  have "\<bar>0 * b6 s + w * 0.115926\<bar> \<le> 0.116"
    using b(7) assms(2) by (rule lin_bound) simp
  then have n6: "\<bar>b6 s'\<bar> \<le> 0.116" by (simp add: s')
  have "\<bar>pk * 0.11\<bar> \<le> 7.61"
    using n0 n1 n2 n3 n4 n5 b(7) assms(2) by (auto simp: pk abs_le_iff)
  with n0 n1 n2 n3 n4 n5 n6 show ?thesis by (simp add: pinkInv_def)
qed

lemma pinkLoop_bound:
  "\<forall>k. 0 \<le> rnd k \<and> rnd k < 1 \<Longrightarrow> pinkInv s \<Longrightarrow> list_all (\<lambda>x. \<bar>x\<bar> \<le> 7.61) data
     \<Longrightarrow> list_all (\<lambda>x. \<bar>x\<bar> \<le> 7.61) (pinkLoop rnd i len s data)"
proof (induction rnd i len s data rule: pinkLoop.induct)
  case (1 rnd i len s data)
  show ?case
  proof (cases "real i < len")
    case True
    obtain s' pk where st: "pinkStep (rnd i * 2 - 1) s = (s', pk)"
      by (cases "pinkStep (rnd i * 2 - 1) s")
    have w: "\<bar>rnd i * 2 - 1\<bar> \<le> 1" using "1.prems"(1) by (simp add: draw_range)
    from pinkStep_bound [OF "1.prems"(2) w st]
    have inv: "pinkInv s'" and pk: "\<bar>pk * 0.11\<bar> \<le> 7.61" by simp_all
    from "1.prems"(3) pk have d: "list_all (\<lambda>x. \<bar>x\<bar> \<le> 7.61) (data[i := pk * 0.11])"
      by (simp add: list_all_update)
    from "1.IH" [OF True st [symmetric] "1.prems"(1) inv d] pinkLoop_unfold [of i len rnd s s' pk data, OF True st]
    show ?thesis by simp
  next
    case False
    with "1.prems" show ?thesis by (simp add: pinkLoop_done)
  qed
qed

lemma pinkInv_init: "pinkInv pinkInit"
  by (simp add: pinkInv_def pinkInit_def)

lemma toUnsignedLong_floor:
  assumes "1 \<le> x" and "x < 2 ^ 32"
  shows "toUnsignedLong x = nat \<lfloor>x\<rfloor>" and "0 < nat \<lfloor>x\<rfloor>"
proof -
  from assms(1) have f1: "1 \<le> \<lfloor>x\<rfloor>" by (simp add: le_floor_iff)
  from assms(2) have f2: "\<lfloor>x\<rfloor> < 2 ^ 32" by (simp add: floor_less_iff)
  from f1 f2 have "\<lfloor>x\<rfloor> mod 2 ^ 32 = \<lfloor>x\<rfloor>" by simp
  with assms(1) show "toUnsignedLong x = nat \<lfloor>x\<rfloor>"
    by (simp add: toUnsignedLong_def)
  from f1 show "0 < nat \<lfloor>x\<rfloor>" by simp
qed

lemma createNoiseBuffer_Inr:
  assumes "toUnsignedLong (mul rate durationSec) \<noteq> 0" and "0 < rate"
    and "minRate \<le> rate" and "rate \<le> maxRate"
  shows "createNoiseBuffer mul rnd minRate maxRate rate ty durationSec
         = Inr \<lparr>numberOfChannels = 1, bufLength = toUnsignedLong (mul rate durationSec),
                bufSampleRate = rate,
                channelData =
                  (case ty of
                     white \<Rightarrow> whiteLoop rnd 0 (mul rate durationSec)
                               (replicate (toUnsignedLong (mul rate durationSec)) 0)
                   | pink \<Rightarrow> pinkLoop rnd 0 (mul rate durationSec) pinkInit
                              (replicate (toUnsignedLong (mul rate durationSec)) 0)
                   | brown \<Rightarrow> brownLoop rnd 0 (mul rate durationSec) 0
                               (replicate (toUnsignedLong (mul rate durationSec)) 0))\<rparr>"
  using assms by (simp add: createNoiseBuffer_def createBuffer_def Let_def)

text \<open>
  C4, as amended: for every noise colour, every sample rate the API supports, every
  duration > 0 for which the product \<open>sampleRate * durationSec\<close>, as JavaScript computes it,
  is at least 1 and below \<open>2^32\<close>, and every stream of draws in \<open>[0, 1)\<close>,
  \<open>createNoiseBuffer\<close> returns a buffer whose sample count is that product truncated to a
  whole number (the product itself when it is whole); every white sample lies in
  \<open>[-1, 1]\<close>, every pink sample in \<open>[-7.61, 7.61]\<close> and every brown sample in \<open>[-3.5, 3.5]\<close>.
\<close>

theorem createNoiseBuffer_samples:
  assumes "0 < durationSec" and "0 < rate" and "minRate \<le> rate" and "rate \<le> maxRate"
    and "1 \<le> mul rate durationSec" and "mul rate durationSec < 2 ^ 32"
    and "\<forall>k. 0 \<le> rnd k \<and> rnd k < 1"
  shows "\<exists>buf. createNoiseBuffer mul rnd minRate maxRate rate ty durationSec = Inr buf
           \<and> length (channelData buf) = nat \<lfloor>mul rate durationSec\<rfloor>
           \<and> bufLength buf = nat \<lfloor>mul rate durationSec\<rfloor>
           \<and> (mul rate durationSec \<in> \<int>
                \<longrightarrow> real (length (channelData buf)) = mul rate durationSec)
           \<and> list_all (\<lambda>x. \<bar>x\<bar> \<le> (case ty of white \<Rightarrow> 1 | pink \<Rightarrow> 7.61 | brown \<Rightarrow> 3.5))
                (channelData buf)"
proof -
  define len where "len = mul rate durationSec"
  define n where "n = toUnsignedLong len"
  from toUnsignedLong_floor [OF assms(5,6)]
  have n: "n = nat \<lfloor>len\<rfloor>" and pos: "n \<noteq> 0"
    by (simp_all add: n_def len_def)
  have whole: "real n = len" if "len \<in> \<int>"
  proof -
    from that obtain z where z: "len = of_int z"
      by (auto elim: Ints_cases)
    with assms(5) have "0 \<le> z"
      by (simp add: len_def)
    with z show ?thesis by (simp add: n)
  qed
  have c: "createNoiseBuffer mul rnd minRate maxRate rate ty durationSec
         = Inr \<lparr>numberOfChannels = 1, bufLength = n, bufSampleRate = rate,
                channelData =
                  (case ty of
                     white \<Rightarrow> whiteLoop rnd 0 len (replicate n 0)
                   | pink \<Rightarrow> pinkLoop rnd 0 len pinkInit (replicate n 0)
                   | brown \<Rightarrow> brownLoop rnd 0 len 0 (replicate n 0))\<rparr>"
    unfolding n_def len_def using pos assms(2,3,4)
    by (intro createNoiseBuffer_Inr) (simp_all add: n_def len_def)
  show ?thesis
  proof (cases ty)
    case white
    have "list_all (\<lambda>x. \<bar>x\<bar> \<le> 1) (whiteLoop rnd 0 len (replicate n 0))"
      using assms(7) by (rule whiteLoop_bound) (simp add: list_all_iff)
    with white n whole show ?thesis
      unfolding c len_def [symmetric] by (simp add: whiteLoop_length)
  next
    case pink
    have "list_all (\<lambda>x. \<bar>x\<bar> \<le> 7.61) (pinkLoop rnd 0 len pinkInit (replicate n 0))"
      using assms(7) pinkInv_init by (rule pinkLoop_bound) (simp add: list_all_iff)
    with pink n whole show ?thesis
      unfolding c len_def [symmetric] by (simp add: pinkLoop_length)
  next
    case brown
    have "list_all (\<lambda>x. \<bar>x\<bar> \<le> 3.5) (brownLoop rnd 0 len 0 (replicate n 0))"
      using assms(7) by (rule brownLoop_bound) (simp_all add: list_all_iff)
    with brown n whole show ?thesis
      unfolding c len_def [symmetric] by (simp add: brownLoop_length)
  qed
qed

text \<open>C4 as amended, at 44100 Hz and the source's default of 3 s (the product 132300 is
  exact in JavaScript too): 132300 pink samples.\<close>

theorem createNoiseBuffer_samples_witness:
  "\<exists>buf. createNoiseBuffer times (constantDraws (1/2)) 8000 96000 44100 pink 3 = Inr buf
           \<and> length (channelData buf) = 132300
           \<and> bufLength buf = 132300
           \<and> list_all (\<lambda>x. \<bar>x\<bar> \<le> 7.61) (channelData buf)"
  using createNoiseBuffer_samples [of 3 44100 8000 96000 times "constantDraws (1/2)" pink]
  by (auto simp: constantDraws_def)

lemma brownLoop_below:
  "j < i \<Longrightarrow> brownLoop rnd i len lastOut data ! j = data ! j"
proof (induction rnd i len lastOut data rule: brownLoop.induct)
  case (1 rnd i len lastOut data)
  show ?case
  proof (cases "real i < len")
    case True
    from "1.IH" [OF True refl refl] "1.prems" brownLoop_unfold [OF True, of rnd lastOut data]
    show ?thesis by simp
  next
    case False
    then show ?thesis by (simp add: brownLoop_done)
  qed
qed

lemma brown_zero_step:
  "(- (1 - (50 / 51) ^ i) + 0.02 * (0 * 2 - 1)) / 1.02 = - (1 - (50 / 51) ^ (i + 1) :: real)"
  by (simp add: field_simps)

lemma brownLoop_zero_nth:
  "i \<le> j \<Longrightarrow> real j < len \<Longrightarrow> j < length data \<Longrightarrow> lastOut = - (1 - (50 / 51) ^ i)
     \<Longrightarrow> brownLoop (constantDraws 0) i len lastOut data ! j
           = - (1 - (50 / 51) ^ (j + 1)) * 3.5"
proof (induction "constantDraws 0" i len lastOut data rule: brownLoop.induct)
  case (1 i len lastOut data)
  from "1.prems" have il: "real i < len" by simp
  define w where "w = constantDraws 0 i * 2 - 1"
  define l' where "l' = (lastOut + 0.02 * w) / 1.02"
  have l'eq: "l' = - (1 - (50 / 51) ^ (i + 1))"
    unfolding l'_def w_def constantDraws_def "1.prems"(4) by (rule brown_zero_step)
  have unf: "brownLoop (constantDraws 0) i len lastOut data
               = brownLoop (constantDraws 0) (i + 1) len l' (data[i := l' * 3.5])"
    unfolding l'_def w_def using il by (rule brownLoop_unfold)
  show ?case
  proof (cases "i = j")
    case True
    with "1.prems" have "brownLoop (constantDraws 0) (i + 1) len l' (data[i := l' * 3.5]) ! j
        = data[i := l' * 3.5] ! j"
      by (intro brownLoop_below) simp
    with True "1.prems" l'eq unf show ?thesis by simp
  next
    case False
    with "1.prems" have "i + 1 \<le> j" by simp
    from "1.hyps" [OF il w_def l'_def this "1.prems"(2) _ l'eq] "1.prems"(3) unf
    show ?thesis by simp
  qed
qed

lemma pinkLoop_below:
  "j < i \<Longrightarrow> pinkLoop rnd i len s data ! j = data ! j"
proof (induction rnd i len s data rule: pinkLoop.induct)
  case (1 rnd i len s data)
  show ?case
  proof (cases "real i < len")
    case True
    obtain s' pk where st: "pinkStep (rnd i * 2 - 1) s = (s', pk)"
      by (cases "pinkStep (rnd i * 2 - 1) s")
    from "1.IH" [OF True st [symmetric]] "1.prems"
      pinkLoop_unfold [of i len rnd s s' pk data, OF True st]
    show ?thesis by simp
  next
    case False
    then show ?thesis by (simp add: pinkLoop_done)
  qed
qed

lemma pinkLoop_const_nth:
  "i \<le> j \<Longrightarrow> real j < len \<Longrightarrow> j < length data \<Longrightarrow> s = pinkIter w i
     \<Longrightarrow> \<forall>k. rnd k * 2 - 1 = w
     \<Longrightarrow> pinkLoop rnd i len s data ! j = snd (pinkStep w (pinkIter w j)) * 0.11"
proof (induction rnd i len s data rule: pinkLoop.induct)
  case (1 rnd i len s data)
  from "1.prems" have il: "real i < len" by simp
  define s' where "s' = fst (pinkStep w s)"
  define pk where "pk = snd (pinkStep w s)"
  from "1.prems"(5) have st: "pinkStep (rnd i * 2 - 1) s = (s', pk)"
    by (simp add: s'_def pk_def)
  have s'eq: "s' = pinkIter w (i + 1)"
    by (simp add: s'_def "1.prems"(4))
  note unf = pinkLoop_unfold [of i len rnd s s' pk data, OF il st]
  show ?case
  proof (cases "i = j")
    case True
    with "1.prems" have "pinkLoop rnd (i + 1) len s' (data[i := pk * 0.11]) ! j
        = data[i := pk * 0.11] ! j"
      by (intro pinkLoop_below) simp
    with True "1.prems" unf show ?thesis by (simp add: pk_def)
  next
    case False
    with "1.prems" have "i + 1 \<le> j" by simp
    from "1.IH" [OF il st [symmetric] this "1.prems"(2) _ s'eq "1.prems"(5)] "1.prems"(3) unf
    show ?thesis by simp
  qed
qed

lemma pinkStep_literal:
  "pinkStep w \<lparr>b0 = x0, b1 = x1, b2 = x2, b3 = x3, b4 = x4, b5 = x5, b6 = x6\<rparr>
     = (\<lparr>b0 = 0.99886 * x0 + w * 0.0555179, b1 = 0.99332 * x1 + w * 0.0750759,
          b2 = 0.969 * x2 + w * 0.153852, b3 = 0.8665 * x3 + w * 0.3104856,
          b4 = 0.55 * x4 + w * 0.5329522, b5 = - 0.7616 * x5 - w * 0.016898,
          b6 = w * 0.115926\<rparr>,
        (0.99886 * x0 + w * 0.0555179) + (0.99332 * x1 + w * 0.0750759)
          + (0.969 * x2 + w * 0.153852) + (0.8665 * x3 + w * 0.3104856)
          + (0.55 * x4 + w * 0.5329522) + (- 0.7616 * x5 - w * 0.016898) + x6 + w * 0.5362)"
  by (simp add: pinkStep_def Let_def)

lemma pinkIter_numeral:
  "pinkIter w (numeral n) = fst (pinkStep w (pinkIter w (pred_numeral n)))"
  by (simp add: numeral_eq_Suc)

lemma pink_sample_22: "snd (pinkStep (- 1) (pinkIter (- 1) 21)) * 0.11 < - 1"
  by (simp add: pinkIter_numeral pinkStep_literal pinkInit_def)

lemma not_in_range:
  "i < length xs \<Longrightarrow> xs ! i < - 1 \<Longrightarrow> \<not> list_all (\<lambda>x. - 1 \<le> x \<and> x \<le> (1::real)) xs"
  by (auto simp: list_all_length)

lemma brown_out_of_range:
  "map_sum id samplesInUnitRange (createNoiseBuffer times (constantDraws 0) 8000 96000 44100 brown 3)
     = Inr False"
proof -
  define data where
    "data = brownLoop (constantDraws 0) 0 (44100 * 3) 0 (replicate 132300 0)"
  have len: "length data = 132300"
    by (simp add: data_def brownLoop_length)
  have "data ! 16 = - (1 - (50 / 51) ^ (16 + 1)) * 3.5"
    unfolding data_def by (rule brownLoop_zero_nth) simp_all
  also have "\<dots> < - 1"
    by (simp add: power_divide)
  finally have "data ! 16 < - 1" .
  with len have "\<not> list_all (\<lambda>x. - 1 \<le> x \<and> x \<le> 1) data"
    by (intro not_in_range [of 16]) simp_all
  with createNoiseBuffer_Inr [of times 44100 3 8000 96000 "constantDraws 0" brown] show ?thesis
    by (simp add: toUnsignedLong_def samplesInUnitRange_def data_def)
qed

lemma pink_out_of_range:
  "map_sum id samplesInUnitRange (createNoiseBuffer times (constantDraws 0) 8000 96000 44100 pink 3)
     = Inr False"
proof -
  define data where
    "data = pinkLoop (constantDraws 0) 0 (44100 * 3) pinkInit (replicate 132300 0)"
  have len: "length data = 132300"
    by (simp add: data_def pinkLoop_length)
  have "data ! 21 = snd (pinkStep (- 1) (pinkIter (- 1) 21)) * 0.11"
    unfolding data_def by (rule pinkLoop_const_nth) (simp_all add: constantDraws_def)
  also have "\<dots> < - 1"
    by (rule pink_sample_22)
  finally have "data ! 21 < - 1" .
  with len have "\<not> list_all (\<lambda>x. - 1 \<le> x \<and> x \<le> 1) data"
    by (intro not_in_range [of 21]) simp_all
  with createNoiseBuffer_Inr [of times 44100 3 8000 96000 "constantDraws 0" pink] show ?thesis
    by (simp add: toUnsignedLong_def samplesInUnitRange_def data_def)
qed

lemma fractional_count:
  "map_sum id (hasSampleCount (1.00001 * 44100))
     (createNoiseBuffer times (constantDraws 0) 8000 96000 44100 white 1.00001) = Inr False"
proof -
  have f: "toUnsignedLong (44100 * 1.00001) = 44100"
    by (simp add: toUnsignedLong_def)
  with createNoiseBuffer_Inr [of times 44100 "1.00001" 8000 96000 "constantDraws 0" white]
  show ?thesis
    by (simp add: hasSampleCount_def whiteLoop_length)
qed

lemma below_one_frame:
  "createNoiseBuffer times (constantDraws 0) 8000 96000 44100 white 0.00001 = Inl NotSupportedError"
proof -
  have "toUnsignedLong (44100 * 0.00001) = 0"
    by (simp add: toUnsignedLong_def)
  then show ?thesis
    by (simp add: createNoiseBuffer_def createBuffer_def Let_def)
qed

text \<open>
  C4, as stated, fails, at 44100 Hz in an implementation supporting 8000 to 96000 Hz.
  With every draw equal to 0 (white = -1) and 3 s, the seventeenth brown sample and the
  twenty-second pink sample are below -1, so neither buffer stays in \<open>[-1, 1]\<close>. With
  1.00001 s the buffer holds 44100 samples, not \<open>durationSec * sampleRate\<close> = 44100.441.
  With 0.00001 s the frame count is 0 and \<open>createBuffer\<close> raises NotSupportedError, so
  generation is not total over durations > 0. The products are taken exactly; rounded to
  doubles they truncate to the same frame counts, 132300, 44100 and 0.
\<close>

theorem createNoiseBuffer_counterexample:
  "map_sum id samplesInUnitRange (createNoiseBuffer times (constantDraws 0) 8000 96000 44100 brown 3)
     = Inr False
   \<and> map_sum id samplesInUnitRange
        (createNoiseBuffer times (constantDraws 0) 8000 96000 44100 pink 3) = Inr False
   \<and> map_sum id (hasSampleCount (1.00001 * 44100))
        (createNoiseBuffer times (constantDraws 0) 8000 96000 44100 white 1.00001) = Inr False
   \<and> createNoiseBuffer times (constantDraws 0) 8000 96000 44100 white 0.00001
       = Inl NotSupportedError"
  using brown_out_of_range pink_out_of_range fractional_count below_one_frame
  by (intro conjI)

subsection \<open>Rules for reading and evaluating contexts\<close>

named_theorems obs

lemma updNode_obs [obs]:
  "nodes (updNode i f c) j = (if j = i then f (nodes c i) else nodes c j)"
  "nextId (updNode i f c) = nextId c"
  "currentTime (updNode i f c) = currentTime c"
  "ctxState (updNode i f c) = ctxState c"
  by (simp_all add: updNode_def)

lemma allocNode_obs [obs]:
  "nodes (allocNode k v c) j = (if j = nextId c then freshNode k v else nodes c j)"
  "nextId (allocNode k v c) = nextId c + 1"
  "currentTime (allocNode k v c) = currentTime c"
  "ctxState (allocNode k v c) = ctxState c"
  by (simp_all add: allocNode_def)

lemma resume_obs [obs]:
  "nodes (resume c) = nodes c"
  "nextId (resume c) = nextId c"
  "currentTime (resume c) = currentTime c"
  "ctxState (resume c) = running"
  by (simp_all add: resume_def)

lemmas prims = createGain_def createBufferSource_def createBiquadFilter_def createOscillator_def
  createStereoPanner_def createNode_def setValue_def getValue_def updParam_def setFilter_def
  setBuffer_def connect_def disconnect_def disconnectOpt_def start_def stop_def tryStop_def
  stopOpt_def

lemma fun_upd_sort:
  fixes a c :: nat
  shows "a < c \<Longrightarrow> (m(c := d))(a := b) = (m(a := b))(c := d)"
  by (rule fun_upd_twist) simp

lemmas store_defs = updNode_def allocNode_def resume_def advanceTo_def fun_upd_sort

lemmas engine_defs = userEvent_def render_def rerender_def stateOf_def thrown_def setEnabled_def
  setMode_def setVolume_def resumeContextIfNeeded_def ensureContext_def startMode_def stopAll_def
  buildModeNodes_def buildWaves_def stopModeNodes_def masterGainEffect_def unlockHandler_def
  tick_def outputGain_def masterGain_def initialEngine_def newAudioContext_def FADE_TIME_def
  enabledOnce_def enabledTwice_def playingRain_def nodeAt_def

lemmas param_defs = cancelScheduledValues_def setValueAtTime_def linearRampToValueAtTime_def
  insertEvent_def valueAt_def scheduledTarget_def freshNode_def

lemmas eval_congs = let_weak_cong prod.case_cong_weak sum.case_cong_weak option.case_cong_weak

lemma insertEvent_append:
  "\<forall>x\<in>set es. eventTime x \<le> eventTime e \<Longrightarrow> insertEvent e es = es @ [e]"
  by (simp add: insertEvent_def)

lemma reschedule_events:
  assumes "0 \<le> d"
  shows "events (linearRampToValueAtTime v (now + d)
           (setValueAtTime cur now (cancelScheduledValues now p)))
         = filter (\<lambda>e. eventTime e < now) (events p)
             @ [SetValueAtTime cur now, LinearRampToValueAtTime v (now + d)]"
proof -
  have 1: "insertEvent (SetValueAtTime cur now) (filter (\<lambda>e. eventTime e < now) (events p))
             = filter (\<lambda>e. eventTime e < now) (events p) @ [SetValueAtTime cur now]"
    by (rule insertEvent_append) auto
  have 2: "insertEvent (LinearRampToValueAtTime v (now + d))
             (filter (\<lambda>e. eventTime e < now) (events p) @ [SetValueAtTime cur now])
           = (filter (\<lambda>e. eventTime e < now) (events p) @ [SetValueAtTime cur now])
               @ [LinearRampToValueAtTime v (now + d)]"
    using assms by (intro insertEvent_append) auto
  show ?thesis
    by (simp add: linearRampToValueAtTime_def setValueAtTime_def cancelScheduledValues_def 1 2)
qed

lemma sched_pvalue [simp]:
  "pvalue (cancelScheduledValues t p) = pvalue p"
  "pvalue (setValueAtTime v t p) = pvalue p"
  "pvalue (linearRampToValueAtTime v t p) = pvalue p"
  by (simp_all add: linearRampToValueAtTime_def setValueAtTime_def cancelScheduledValues_def)

subsection \<open>The public operations\<close>

text \<open>
  C7: for every mode \<open>m\<close>, \<open>setMode(m)\<close> called from a render in which the engine is
  disabled changes the stored mode and nothing else: the context, the master gain, the
  current graph, the enabled flag and the volume are as before, and nothing is raised.
\<close>

theorem setMode_disabled:
  assumes "\<not> enabled r"
  shows "setMode r m s = Inr (s\<lparr>modeState := m\<rparr>)"
  using assms by (simp add: setMode_def)

text \<open>C7 at the initial state, with mode waves.\<close>

theorem setMode_disabled_witness:
  "\<not> enabled (render False False initialEngine)
   \<and> setMode (render False False initialEngine) waves initialEngine
       = Inr (initialEngine\<lparr>modeState := waves\<rparr>)"
  using setMode_disabled [of "render False False initialEngine" waves initialEngine]
  by (simp add: render_def initialEngine_def)

text \<open>
  C10: \<open>setEnabled(false)\<close> before any audio context exists records \<open>enabled = false\<close> and
  does nothing else: no context or master gain is created, no ramp is scheduled, no graph
  is touched and nothing is raised; the render that follows leaves the state as it is.
\<close>

theorem setEnabled_false_without_context:
  assumes "audioCtxRef s = None"
  shows "setEnabled r False s = Inr (s\<lparr>enabledState := False\<rparr>)
         \<and> userEvent timerRunning timerBreak (\<lambda>r. setEnabled r False) s
             = s\<lparr>enabledState := False\<rparr>"
  using assms
  by (simp add: setEnabled_def stopAll_def userEvent_def rerender_def stateOf_def
        masterGainEffect_def Let_def)

text \<open>C10 at the initial state.\<close>

theorem setEnabled_false_without_context_witness:
  "audioCtxRef initialEngine = None
   \<and> setEnabled (render False False initialEngine) False initialEngine
        = Inr (initialEngine\<lparr>enabledState := False\<rparr>)
   \<and> userEvent False False (\<lambda>r. setEnabled r False) initialEngine
        = initialEngine\<lparr>enabledState := False\<rparr>"
  using setEnabled_false_without_context
    [of initialEngine "render False False initialEngine" False False]
  by (simp add: initialEngine_def)

text \<open>
  C1: whenever the master-gain effect runs on an engine that has a context, it cancels
  the pending master ramp, anchors the gain at its current value and schedules a linear
  ramp over 0.5 s whose target is 0 if \<open>enabled\<close> is false, \<open>1.0 * volume\<close> if enabled,
  running and not on break, and \<open>0.3 * volume\<close> otherwise (on break, or paused), for
  every volume in \<open>[0, 1]\<close>.
\<close>

theorem masterGainEffect_target:
  assumes "audioCtxRef s = Some ctx" and "masterGainRef s = Some m"
    and "0 \<le> volume r" and "volume r \<le> 1"
  shows "map_option events (masterGain (masterGainEffect r s))
           = Some (filter (\<lambda>e. eventTime e < currentTime ctx) (events (param (nodes ctx m)))
               @ [SetValueAtTime (pvalue (param (nodes ctx m))) (currentTime ctx),
                  LinearRampToValueAtTime
                    (if \<not> enabled r then 0
                     else if isRunning r \<and> \<not> isBreak r then 1.0 * volume r
                     else 0.3 * volume r) (currentTime ctx + 0.5)])"
  using assms(1,2) reschedule_events [of "1/2" _ "currentTime ctx"]
  by (simp add: masterGainEffect_def masterGain_def Let_def updParam_def getValue_def obs)

text \<open>C1 with volume 0.4, on the engine whose context the first gesture created: the four
  targets are 0, 0.4, 0.12 and 0.12.\<close>

theorem masterGainEffect_target_witness:
  "(let s = unlockHandler initialEngine
    in audioCtxRef s \<noteq> None \<and> masterGainRef s = Some 0
       \<and> map_option scheduledTarget (masterGain (masterGainEffect
            \<lparr>mode = rain, enabled = False, volume = 0.4, isRunning = True, isBreak = False\<rparr> s))
          = Some 0
       \<and> map_option scheduledTarget (masterGain (masterGainEffect
            \<lparr>mode = rain, enabled = True, volume = 0.4, isRunning = True, isBreak = False\<rparr> s))
          = Some 0.4
       \<and> map_option scheduledTarget (masterGain (masterGainEffect
            \<lparr>mode = rain, enabled = True, volume = 0.4, isRunning = True, isBreak = True\<rparr> s))
          = Some 0.12
       \<and> map_option scheduledTarget (masterGain (masterGainEffect
            \<lparr>mode = rain, enabled = True, volume = 0.4, isRunning = False, isBreak = False\<rparr> s))
          = Some 0.12)"
proof -
  define s where "s = unlockHandler initialEngine"
  obtain ctx where c: "audioCtxRef s = Some ctx" and m: "masterGainRef s = Some 0"
    by (simp add: s_def engine_defs prims Let_def cong: eval_congs)
  have t: "map_option scheduledTarget (masterGain (masterGainEffect
             \<lparr>mode = rain, enabled = e, volume = 0.4, isRunning = a, isBreak = b\<rparr> s))
           = Some (if \<not> e then 0 else if a \<and> \<not> b then 1.0 * 0.4 else 0.3 * 0.4)" for e a b
    using masterGainEffect_target [OF c m,
        of "\<lparr>mode = rain, enabled = e, volume = 0.4, isRunning = a, isBreak = b\<rparr>"]
    by (cases "masterGain (masterGainEffect
             \<lparr>mode = rain, enabled = e, volume = 0.4, isRunning = a, isBreak = b\<rparr> s)")
       (auto simp: scheduledTarget_def)
  show ?thesis
    using c m t [of False True False] t [of True True False] t [of True True True]
      t [of True False False]
    unfolding Let_def s_def [symmetric] by simp
qed

text \<open>
  C6: for every real \<open>v\<close>, \<open>setVolume(v)\<close> raises nothing, stores \<open>v\<close> clamped to \<open>[0, 1]\<close> and
  leaves mode, enabled flag and refs alone. When a graph is active it cancels the pending
  events of that graph's output gain, anchors the gain at its current value and schedules
  a linear ramp to the clamped volume over 0.2 s; no other node (so not the master gain)
  is changed. Without a context or a graph only the stored volume changes.
\<close>

theorem setVolume_clamps:
  "thrown (setVolume r v s) = None
   \<and> volumeState (stateOf (setVolume r v s)) = max 0 (min 1 v)
   \<and> 0 \<le> volumeState (stateOf (setVolume r v s))
   \<and> volumeState (stateOf (setVolume r v s)) \<le> 1
   \<and> modeState (stateOf (setVolume r v s)) = modeState s
   \<and> enabledState (stateOf (setVolume r v s)) = enabledState s
   \<and> masterGainRef (stateOf (setVolume r v s)) = masterGainRef s
   \<and> currentNodesRef (stateOf (setVolume r v s)) = currentNodesRef s
   \<and> (\<forall>ctx n. audioCtxRef s = Some ctx \<and> currentNodesRef s = Some n \<longrightarrow>
         map_option events (outputGain (stateOf (setVolume r v s)))
           = Some (filter (\<lambda>e. eventTime e < currentTime ctx)
                     (events (param (nodes ctx (gain n))))
                   @ [SetValueAtTime (pvalue (param (nodes ctx (gain n)))) (currentTime ctx),
                      LinearRampToValueAtTime (max 0 (min 1 v)) (currentTime ctx + 0.2)])
         \<and> (\<forall>i. i \<noteq> gain n \<longrightarrow> nodeAt (stateOf (setVolume r v s)) i = nodeAt s i))
   \<and> (audioCtxRef s = None \<or> currentNodesRef s = None \<longrightarrow>
         stateOf (setVolume r v s) = s\<lparr>volumeState := max 0 (min 1 v)\<rparr>)"
proof -
  have a: "thrown (setVolume r v s) = None"
    by (simp add: setVolume_def thrown_def Let_def split: option.splits)
  have b: "volumeState (stateOf (setVolume r v s)) = max 0 (min 1 v)"
          "modeState (stateOf (setVolume r v s)) = modeState s"
          "enabledState (stateOf (setVolume r v s)) = enabledState s"
          "masterGainRef (stateOf (setVolume r v s)) = masterGainRef s"
          "currentNodesRef (stateOf (setVolume r v s)) = currentNodesRef s"
    by (simp_all add: setVolume_def stateOf_def Let_def split: option.splits)
  have c: "0 \<le> max 0 (min 1 v)" "max 0 (min 1 v) \<le> 1"
    by simp_all
  have d: "map_option events (outputGain (stateOf (setVolume r v s)))
           = Some (filter (\<lambda>e. eventTime e < currentTime ctx)
                     (events (param (nodes ctx (gain n))))
                   @ [SetValueAtTime (pvalue (param (nodes ctx (gain n)))) (currentTime ctx),
                      LinearRampToValueAtTime (max 0 (min 1 v)) (currentTime ctx + 0.2)])
         \<and> (\<forall>i. i \<noteq> gain n \<longrightarrow> nodeAt (stateOf (setVolume r v s)) i = nodeAt s i)"
    if "audioCtxRef s = Some ctx" "currentNodesRef s = Some n" for ctx n
    using that reschedule_events [of "1/5" _ "currentTime ctx"]
    by (simp add: setVolume_def stateOf_def outputGain_def nodeAt_def Let_def updParam_def
          getValue_def obs)
  have e: "stateOf (setVolume r v s) = s\<lparr>volumeState := max 0 (min 1 v)\<rparr>"
    if "audioCtxRef s = None \<or> currentNodesRef s = None"
    using that by (auto simp: setVolume_def stateOf_def Let_def split: option.splits)
  show ?thesis
    unfolding b using a c d e by (intro conjI allI impI) auto
qed

text \<open>C6 at volume 1.7, 0.1 s after the sound was switched on: the stored volume is 1 and
  the rain graph's gain ramps to 1 by 0.3 s.\<close>

theorem setVolume_clamps_witness:
  "(let s = tick 0.1 enabledOnce;
        res = setVolume (render False False s) 1.7 s
    in audioCtxRef s \<noteq> None \<and> currentNodesRef s \<noteq> None
       \<and> thrown res = None \<and> volumeState (stateOf res) = 1
       \<and> map_option events (outputGain (stateOf res))
           = Some [SetValueAtTime 0 0, SetValueAtTime 0 (1/10),
                   LinearRampToValueAtTime 1 (3/10)])"
proof -
  have "thrown (setVolume (render False False (tick 0.1 enabledOnce)) 1.7 (tick 0.1 enabledOnce))
          = None
        \<and> volumeState (stateOf
            (setVolume (render False False (tick 0.1 enabledOnce)) 1.7 (tick 0.1 enabledOnce)))
          = max 0 (min 1 1.7)"
    using setVolume_clamps [of "render False False (tick 0.1 enabledOnce)" "1.7"
        "tick 0.1 enabledOnce"] by blast
  then show ?thesis
    by (simp add: engine_defs prims store_defs param_defs Let_def cong: eval_congs)
qed

subsection \<open>Where the hook departs from its specification\<close>

text \<open>
  C5 (what the code does): in the initial state (disabled, mode rain, volume
  0.4) \<open>setEnabled(true)\<close> raises nothing and builds the rain graph, but \<open>startMode\<close> reads
  the \<open>enabled\<close> of the render in which the sound was still off, so the ramp it
  schedules for the graph's output gain goes from 0 to 0 and not to the volume 0.4.
\<close>

theorem setEnabled_true_ramps_to_zero:
  "thrown (setEnabled (render False False initialEngine) True initialEngine) = None
   \<and> volumeState enabledOnce = 2/5
   \<and> enabledState enabledOnce
   \<and> map_option buffer (nodeAt enabledOnce 2) = Some (Some pink)
   \<and> map_option filterType (nodeAt enabledOnce 3) = Some lowpass
   \<and> map_option events (outputGain enabledOnce)
       = Some [SetValueAtTime 0 0, LinearRampToValueAtTime 0 (1/2)]"
  by (simp add: engine_defs prims store_defs param_defs Let_def cong: eval_congs)

text \<open>
  C2 (what the code does): the sound is switched on, and 0.03 s later
  \<open>setMode('waves')\<close> is called from the next render. \<open>buildModeNodes\<close> has already started
  the body source it returns as \<open>source\<close>, so the \<open>start\<close> in \<open>startMode\<close> raises
  InvalidStateError; the stored mode is waves, and the new graph's gain holds the event
  \<open>setValueAtTime(0, now)\<close> only, its ramp never being scheduled. Called instead from the
  same render as \<open>setEnabled(true)\<close>, \<open>setMode('waves')\<close> sees \<open>enabled = false\<close> and builds
  nothing: the current graph stays the rain graph.
\<close>

theorem setMode_waves_throws:
  "(let s = tick 0.03 enabledOnce;
        res = setMode (render False False s) waves s
    in thrown res = Some InvalidStateError
       \<and> modeState (stateOf res) = waves
       \<and> map_option spraySource (currentNodesRef (stateOf res)) = Some (Some 8)
       \<and> map_option events (outputGain (stateOf res)) = Some [SetValueAtTime 0 (3/100)])
   \<and> (let r = render False False initialEngine;
            res = setMode r waves (stateOf (setEnabled r True initialEngine))
        in thrown res = None
           \<and> modeState (stateOf res) = waves
           \<and> map_option spraySource (currentNodesRef (stateOf res)) = Some None)"
  by (simp add: engine_defs prims obs advanceTo_def param_defs Let_def cong: eval_congs)

text \<open>
  C8 (what the code does): from the initial state, one \<open>setEnabled(true)\<close>
  leaves the output gain of the current graph heading for 0, while a second
  \<open>setEnabled(true)\<close>, called from the next render, leaves it heading for the volume 0.4:
  the two steady states differ.
\<close>

theorem setEnabled_twice_differs:
  "map_option scheduledTarget (outputGain enabledOnce) = Some 0
   \<and> map_option scheduledTarget (outputGain enabledTwice) = Some (2/5)
   \<and> map_option scheduledTarget (masterGain enabledOnce) = Some (3/25)
   \<and> map_option scheduledTarget (masterGain enabledTwice) = Some (3/25)"
  by (simp add: engine_defs prims store_defs param_defs Let_def cong: eval_congs)

text \<open>
  C3 (what the code does): the rain graph plays at gain 0.5 and \<open>setMode('wind')\<close>
  is called at time 1. In the state the call returns, with the clock still at 1, the old
  graph's output gain (node 1) is already disconnected from the master gain (node 0),
  although its fade to 0 ends at 1.5 and its source (node 2) is stopped at 1.5 only.
\<close>

theorem setMode_disconnects_before_fade:
  "(let s = playingRain;
        res = setMode (render False False s) wind s;
        s' = stateOf res
    in map_option gain (currentNodesRef s) = Some 1
       \<and> map_option source (currentNodesRef s) = Some 2
       \<and> map_option outputs (nodeAt s 1) = Some [ToNode 0]
       \<and> thrown res = None
       \<and> map_option currentTime (audioCtxRef s') = Some 1
       \<and> map_option outputs (nodeAt s' 1) = Some []
       \<and> map_option (\<lambda>n. events (param n)) (nodeAt s' 1)
           = Some [SetValueAtTime 0 0, SetValueAtTime 0 (1/10),
                   LinearRampToValueAtTime (1/2) (3/10),
                   SetValueAtTime (1/2) 1, LinearRampToValueAtTime 0 (3/2)]
       \<and> map_option stopTime (nodeAt s' 2) = Some (Some (3/2))
       \<and> map_option events (outputGain s')
           = Some [SetValueAtTime 0 1, LinearRampToValueAtTime (1/2) (3/2)])"
  by (simp add: engine_defs prims store_defs param_defs Let_def cong: eval_congs)

subsection \<open>The master gain is a single, persistent stage\<close>

lemma shrinks_refl: "shrinks D c c"
  by (simp add: shrinks_def)

lemma shrinks_trans: "shrinks D c c' \<Longrightarrow> shrinks D c' c'' \<Longrightarrow> shrinks D c c''"
  unfolding shrinks_def by (intro conjI allI) (metis, metis, metis, metis)

lemma shrinks_mono: "shrinks D c c' \<Longrightarrow> D \<subseteq> E \<Longrightarrow> shrinks E c c'"
  unfolding shrinks_def by blast

lemma shrinks_updNode:
  assumes "kind (f (nodes c i)) = kind (nodes c i)"
    and "outputs (f (nodes c i)) = outputs (nodes c i) \<or> i \<in> D \<and> outputs (f (nodes c i)) = []"
    and "started (nodes c i) \<longrightarrow> started (f (nodes c i))"
  shows "shrinks D c (updNode i f c)"
  using assms by (simp add: shrinks_def obs)

lemma shrinks_updParam: "shrinks D c (updParam i f c)"
  unfolding updParam_def by (rule shrinks_updNode) simp_all

lemma shrinks_disconnect: "i \<in> D \<Longrightarrow> shrinks D c (disconnect i c)"
  unfolding disconnect_def by (rule shrinks_updNode) simp_all

lemma shrinks_disconnectOpt: "(\<forall>i. io = Some i \<longrightarrow> i \<in> D) \<Longrightarrow> shrinks D c (disconnectOpt io c)"
  by (cases io) (simp_all add: disconnectOpt_def shrinks_refl shrinks_disconnect)

lemma shrinks_tryStop: "shrinks D c (tryStop i w c)"
  by (simp add: tryStop_def stop_def shrinks_refl shrinks_updNode)

lemma shrinks_stopOpt:
  assumes "\<forall>i. io = Some i \<longrightarrow> started (nodes c i)"
  shows "\<exists>c'. stopOpt io c = Inr c' \<and> shrinks D c c'"
  using assms by (cases io) (simp_all add: stopOpt_def stop_def shrinks_refl shrinks_updNode)

lemma shrinks_start:
  "start i c = Inl (e, c') \<or> start i c = Inr c' \<Longrightarrow> shrinks D c c'"
  by (auto simp: start_def shrinks_refl shrinks_updNode split: if_splits)

lemma shrinks_advanceTo: "shrinks D c (advanceTo t c)"
  by (simp add: shrinks_def advanceTo_def)

lemma shrinks_resume: "shrinks D c (resume c)"
  by (simp add: shrinks_def resume_def)

lemma ctxInv_shrinks: "ctxInv m c \<Longrightarrow> shrinks D c c' \<Longrightarrow> m \<notin> D \<Longrightarrow> ctxInv m c'"
  unfolding ctxInv_def shrinks_def
  by (metis empty_iff empty_set)

lemma graphInv_shrinks: "graphInv m c n \<Longrightarrow> shrinks {} c c' \<Longrightarrow> graphInv m c' n"
  unfolding graphInv_def shrinks_def by simp

lemma shrinks_started: "shrinks D c c' \<Longrightarrow> started (nodes c i) \<Longrightarrow> started (nodes c' i)"
  by (simp add: shrinks_def)

lemma persists_refl: "persists c c"
  by (simp add: persists_def)

lemma persists_trans:
  assumes "persists c c'" and "persists c' c''"
  shows "persists c c''"
proof -
  from assms have le: "nextId c \<le> nextId c'" "nextId c' \<le> nextId c''"
    by (simp_all add: persists_def)
  have "kind (nodes c'' i) = kind (nodes c i)
        \<and> (started (nodes c i) \<longrightarrow> started (nodes c'' i))" if "i < nextId c" for i
  proof -
    from that le have "i < nextId c'" by simp
    with assms that show ?thesis
      by (simp add: persists_def)
  qed
  with le show ?thesis
    by (simp add: persists_def)
qed

lemma shrinks_persists: "shrinks D c c' \<Longrightarrow> persists c c'"
  by (simp add: shrinks_def persists_def)

lemma evolves_refl: "evolves s s"
  by (auto simp: evolves_def intro: persists_refl)

lemma shrinks_step:
  "shrinks D c x \<Longrightarrow> shrinks D c (updParam i f x)"
  "shrinks D c x \<Longrightarrow> shrinks D c (tryStop i w x)"
  "shrinks D c x \<Longrightarrow> i \<in> D \<Longrightarrow> shrinks D c (disconnect i x)"
  "shrinks D c x \<Longrightarrow> (\<forall>i. io = Some i \<longrightarrow> i \<in> D) \<Longrightarrow> shrinks D c (disconnectOpt io x)"
  "shrinks D c x \<Longrightarrow> shrinks D c y \<Longrightarrow> shrinks D c (if b then x else y)"
  "shrinks D c x \<Longrightarrow> shrinks D c (case io of None \<Rightarrow> x | Some sp \<Rightarrow> tryStop sp w x)"
  by (auto intro: shrinks_trans shrinks_updParam shrinks_tryStop shrinks_disconnect
        shrinks_disconnectOpt split: option.splits)

lemma stopOpt_chain:
  assumes "shrinks D c x" and "\<forall>i. io = Some i \<longrightarrow> started (nodes c i)"
  shows "\<exists>y. stopOpt io x = Inr y \<and> shrinks D c y"
proof -
  from assms have "\<forall>i. io = Some i \<longrightarrow> started (nodes x i)"
    by (simp add: shrinks_def)
  from shrinks_stopOpt [OF this, of D] assms(1) show ?thesis
    by (blast intro: shrinks_trans)
qed

lemma case_Inr_chain:
  assumes "\<exists>y. A = Inr y \<and> Q y"
    and "\<And>y. Q y \<Longrightarrow> \<exists>z. F y = Inr z \<and> R z"
  shows "\<exists>z. (case A of Inl e \<Rightarrow> Inl e | Inr y \<Rightarrow> F y) = Inr z \<and> R z"
  using assms by auto

lemma nodeIds_mem:
  "source n \<in> set (nodeIds n)" "gain n \<in> set (nodeIds n)"
  "filterN n = Some i \<Longrightarrow> i \<in> set (nodeIds n)"
  "lfoOsc n = Some i \<Longrightarrow> i \<in> set (nodeIds n)"
  "lfoGain n = Some i \<Longrightarrow> i \<in> set (nodeIds n)"
  "spraySource n = Some i \<Longrightarrow> i \<in> set (nodeIds n)"
  "bodyGain n = Some i \<Longrightarrow> i \<in> set (nodeIds n)"
  "sprayGain n = Some i \<Longrightarrow> i \<in> set (nodeIds n)"
  "masterFilter n = Some i \<Longrightarrow> i \<in> set (nodeIds n)"
  "panNode n = Some i \<Longrightarrow> i \<in> set (nodeIds n)"
  "panOsc n = Some i \<Longrightarrow> i \<in> set (nodeIds n)"
  "panGain n = Some i \<Longrightarrow> i \<in> set (nodeIds n)"
  by (simp_all add: nodeIds_def optId_def)

lemma stopModeNodes_shrinks:
  assumes "\<forall>i. lfoOsc n = Some i \<longrightarrow> started (nodes c i)"
    and "\<forall>i. panOsc n = Some i \<longrightarrow> started (nodes c i)"
  shows "\<exists>c'. stopModeNodes (Some n) fadeOut c = Inr c' \<and> shrinks (set (nodeIds n)) c c'"
  unfolding stopModeNodes_def Let_def option.case
  apply (rule case_Inr_chain [where Q = "shrinks (set (nodeIds n)) c"])
   apply (rule stopOpt_chain [OF _ assms(1)])
   apply (intro shrinks_step shrinks_refl; simp add: nodeIds_mem)
  apply (rule case_Inr_chain [where Q = "shrinks (set (nodeIds n)) c"])
   apply (rule stopOpt_chain [OF _ assms(2)])
   apply (intro shrinks_step; simp add: nodeIds_mem)
  apply (rule exI, rule conjI, rule refl)
  apply (intro shrinks_step; simp add: nodeIds_mem)
  done

lemma stopModeNodes_None: "stopModeNodes None fadeOut c = Inr c"
  by (simp add: stopModeNodes_def)

lemma build_ok:
  assumes "ctxInv m c"
  shows "\<exists>n c'. buildModeNodes (Some m) md c = Inr (n, c') \<and> ctxInv m c' \<and> graphInv m c' n
           \<and> persists c c'"
proof (cases md)
  case rain
  with assms show ?thesis
    unfolding buildModeNodes_def ctxInv_def graphInv_def persists_def nodeIds_def optId_def
    by (simp add: Let_def prims obs freshNode_def cong: eval_congs)
next
  case wind
  with assms show ?thesis
    unfolding buildModeNodes_def ctxInv_def graphInv_def persists_def nodeIds_def optId_def
    by (simp add: Let_def prims obs freshNode_def cong: eval_congs)
next
  case waves
  with assms show ?thesis
    unfolding buildModeNodes_def buildWaves_def ctxInv_def graphInv_def persists_def
      nodeIds_def optId_def
    by (simp add: Let_def prims obs freshNode_def cong: eval_congs)
qed

lemma engineInv_iff:
  "engineInv s \<longleftrightarrow>
     (audioCtxRef s = None \<and> masterGainRef s = None \<and> currentNodesRef s = None)
     \<or> (\<exists>c m. ready s c m)"
  by (auto simp: engineInv_def ready_def split: option.splits)

lemma ready_engineInv: "ready s c m \<Longrightarrow> engineInv s"
  by (auto simp: engineInv_iff)

lemma ready_shrinks:
  assumes "ready s c m" and "shrinks {} c c'"
  shows "ready (s\<lparr>audioCtxRef := Some c'\<rparr>) c' m"
  using assms by (auto simp: ready_def intro: ctxInv_shrinks graphInv_shrinks)

lemma ctxInv_new:
  "ctxInv 0 (connect 0 ToDestination (setValue 0 0 (snd (createGain newAudioContext))))"
  by (simp add: ctxInv_def prims obs newAudioContext_def freshNode_def)

lemma ready_evolves:
  assumes "ready s' c' m"
    and "\<forall>m'. masterGainRef s = Some m' \<longrightarrow> m' = m"
    and "\<forall>c0. audioCtxRef s = Some c0 \<longrightarrow> persists c0 c'"
  shows "engineInv s' \<and> evolves s s'"
proof -
  from assms(1) have "engineInv s'"
    by (rule ready_engineInv)
  moreover from assms have "evolves s s'"
    by (auto simp: ready_def evolves_def)
  ultimately show ?thesis ..
qed

lemma ensureContext_ready:
  assumes "engineInv s"
  shows "\<exists>c m. ensureContext s = (c, s\<lparr>audioCtxRef := Some c, masterGainRef := Some m\<rparr>)
           \<and> ready (s\<lparr>audioCtxRef := Some c, masterGainRef := Some m\<rparr>) c m
           \<and> (\<forall>m'. masterGainRef s = Some m' \<longrightarrow> m' = m)
           \<and> (\<forall>c0. audioCtxRef s = Some c0 \<longrightarrow> c0 = c)"
proof (cases "audioCtxRef s")
  case None
  with assms have n: "masterGainRef s = None" "currentNodesRef s = None"
    by (simp_all add: engineInv_def)
  have f: "fst (createGain newAudioContext) = 0"
    by (simp add: createGain_def createNode_def newAudioContext_def)
  have "ensureContext s
          = (connect 0 ToDestination (setValue 0 0 (snd (createGain newAudioContext))),
             s\<lparr>audioCtxRef := Some (connect 0 ToDestination
                    (setValue 0 0 (snd (createGain newAudioContext)))),
               masterGainRef := Some 0\<rparr>)"
    using None f by (simp add: ensureContext_def Let_def split_beta)
  with n None ctxInv_new show ?thesis
    by (intro exI [of _ "connect 0 ToDestination (setValue 0 0 (snd (createGain newAudioContext)))"]
          exI [of _ 0]) (simp add: ready_def)
next
  case (Some c)
  with assms obtain m where m: "masterGainRef s = Some m" and r: "ready s c m"
    by (auto simp: engineInv_def ready_def split: option.splits)
  have "s\<lparr>audioCtxRef := Some c, masterGainRef := Some m\<rparr> = s"
    using Some m by simp
  with Some m r show ?thesis
    by (simp add: ensureContext_def ready_def)
qed

lemma resumeContextIfNeeded_ready:
  assumes "engineInv s"
  shows "\<exists>c m. resumeContextIfNeeded s
                 = (c, s\<lparr>audioCtxRef := Some c, masterGainRef := Some m\<rparr>)
           \<and> ready (s\<lparr>audioCtxRef := Some c, masterGainRef := Some m\<rparr>) c m
           \<and> (\<forall>m'. masterGainRef s = Some m' \<longrightarrow> m' = m)
           \<and> (\<forall>c0. audioCtxRef s = Some c0 \<longrightarrow> persists c0 c)"
proof -
  from ensureContext_ready [OF assms] obtain c m where
    e: "ensureContext s = (c, s\<lparr>audioCtxRef := Some c, masterGainRef := Some m\<rparr>)"
    and r: "ready (s\<lparr>audioCtxRef := Some c, masterGainRef := Some m\<rparr>) c m"
    and k: "\<forall>m'. masterGainRef s = Some m' \<longrightarrow> m' = m"
    and kc: "\<forall>c0. audioCtxRef s = Some c0 \<longrightarrow> c0 = c"
    by blast
  define c' where "c' = (if ctxState c = suspended then resume c else c)"
  have sh: "shrinks {} c c'"
    by (simp add: c'_def shrinks_refl shrinks_resume)
  from ready_shrinks [OF r this]
  have "ready (s\<lparr>audioCtxRef := Some c', masterGainRef := Some m\<rparr>) c' m"
    by (simp add: ready_def)
  moreover have "resumeContextIfNeeded s
      = (c', s\<lparr>audioCtxRef := Some c', masterGainRef := Some m\<rparr>)"
    by (simp add: resumeContextIfNeeded_def e Let_def c'_def)
  moreover from kc shrinks_persists [OF sh]
  have "\<forall>c0. audioCtxRef s = Some c0 \<longrightarrow> persists c0 c'"
    by auto
  ultimately show ?thesis using k by blast
qed

lemma startMode_inv:
  assumes "engineInv s"
  shows "engineInv (stateOf (startMode r md s)) \<and> evolves s (stateOf (startMode r md s))"
proof -
  from resumeContextIfNeeded_ready [OF assms] obtain c m where
    R: "resumeContextIfNeeded s = (c, s\<lparr>audioCtxRef := Some c, masterGainRef := Some m\<rparr>)"
    and rd: "ready (s\<lparr>audioCtxRef := Some c, masterGainRef := Some m\<rparr>) c m"
    and k: "\<forall>m'. masterGainRef s = Some m' \<longrightarrow> m' = m"
    and kp: "\<forall>c0. audioCtxRef s = Some c0 \<longrightarrow> persists c0 c"
    by blast
  define s1 where "s1 = s\<lparr>audioCtxRef := Some c, masterGainRef := Some m\<rparr>"
  define c2 where "c2 = (if ctxState c = suspended then resume c else c)"
  have m1: "masterGainRef s1 = Some m"
    by (simp add: s1_def)
  have sh2: "shrinks {} c c2"
    by (simp add: c2_def shrinks_refl shrinks_resume)
  from rd have inv: "ctxInv m c"
    by (simp add: ready_def)
  have inv2: "ctxInv m c2"
    using inv sh2 by (rule ctxInv_shrinks) simp
  obtain c3 where
    st: "(case currentNodesRef s1 of None \<Rightarrow> Inr c2
          | Some old \<Rightarrow> stopModeNodes (Some old) True c2) = Inr c3"
    and inv3: "ctxInv m c3" and p3: "persists c2 c3"
  proof (cases "currentNodesRef s1")
    case None
    with inv2 that persists_refl show ?thesis by simp
  next
    case (Some old)
    with rd have g: "graphInv m c old"
      by (simp add: ready_def s1_def)
    from graphInv_shrinks [OF g sh2] have g2: "graphInv m c2 old" .
    then have "\<forall>i. lfoOsc old = Some i \<longrightarrow> started (nodes c2 i)"
      and "\<forall>i. panOsc old = Some i \<longrightarrow> started (nodes c2 i)"
      by (simp_all add: graphInv_def)
    from stopModeNodes_shrinks [OF this, of True] obtain c3 where
      a: "stopModeNodes (Some old) True c2 = Inr c3"
      and b: "shrinks (set (nodeIds old)) c2 c3"
      by blast
    from g2 have "m \<notin> set (nodeIds old)"
      by (auto simp: graphInv_def)
    with inv2 b have "ctxInv m c3"
      by (rule ctxInv_shrinks)
    with a Some that shrinks_persists [OF b] show ?thesis by simp
  qed
  from build_ok [OF inv3, of md] obtain n c4 where
    b: "buildModeNodes (Some m) md c3 = Inr (n, c4)"
    and inv4: "ctxInv m c4" and g4: "graphInv m c4 n" and p4: "persists c3 c4"
    by blast
  have p: "persists c c4"
    using shrinks_persists [OF sh2] p3 p4 by (blast intro: persists_trans)
  define c5 where "c5 = updParam (gain n) (setValueAtTime 0 (currentTime c)) c4"
  have sh5: "shrinks {} c4 c5"
    by (simp add: c5_def shrinks_updParam)
  define s2 where "s2 = s1\<lparr>currentNodesRef := Some n\<rparr>"
  have fin: "engineInv (s2\<lparr>audioCtxRef := Some c'\<rparr>) \<and> evolves s (s2\<lparr>audioCtxRef := Some c'\<rparr>)"
    if "shrinks {} c5 c'" for c'
  proof -
    from sh5 that have sh: "shrinks {} c4 c'"
      by (rule shrinks_trans)
    from ctxInv_shrinks [OF inv4 sh] graphInv_shrinks [OF g4 sh]
    have rdy: "ready (s2\<lparr>audioCtxRef := Some c'\<rparr>) c' m"
      by (simp add: ready_def s2_def s1_def)
    from p shrinks_persists [OF sh] have "persists c c'"
      by (rule persists_trans)
    with kp have "\<forall>c0. audioCtxRef s = Some c0 \<longrightarrow> persists c0 c'"
      by (blast intro: persists_trans)
    with rdy k show ?thesis
      by (intro ready_evolves)
  qed
  have unf: "startMode r md s =
      (case start (source n) c5 of
         Inl (err, ctx) \<Rightarrow> Inl (err, s2\<lparr>audioCtxRef := Some ctx\<rparr>)
       | Inr ctx \<Rightarrow>
           Inr (s2\<lparr>audioCtxRef := Some (updParam (gain n)
                  (linearRampToValueAtTime (if enabled r then volume r else 0)
                     (currentTime c + FADE_TIME)) ctx)\<rparr>))"
    unfolding startMode_def R prod.case Let_def
    unfolding s1_def [symmetric] c2_def [symmetric]
    unfolding st sum.case m1 b prod.case
    unfolding c5_def [symmetric] s2_def [symmetric]
    by (rule refl)
  show ?thesis
  proof (cases "start (source n) c5")
    case (Inl a)
    obtain e c6 where a: "a = (e, c6)" by (cases a)
    with Inl have "shrinks {} c5 c6"
      by (auto intro: shrinks_start)
    from fin [OF this] Inl a show ?thesis
      by (simp add: unf stateOf_def)
  next
    case (Inr c6)
    then have "shrinks {} c5 c6"
      by (auto intro: shrinks_start)
    then have "shrinks {} c5 (updParam (gain n)
                  (linearRampToValueAtTime (if enabled r then volume r else 0)
                     (currentTime c + FADE_TIME)) c6)"
      by (rule shrinks_step)
    from fin [OF this] Inr show ?thesis
      by (simp add: unf stateOf_def)
  qed
qed

lemma engineInv_state_upd:
  "engineInv (s\<lparr>modeState := x\<rparr>) = engineInv s"
  "engineInv (s\<lparr>enabledState := y\<rparr>) = engineInv s"
  "engineInv (s\<lparr>volumeState := z\<rparr>) = engineInv s"
  by (simp_all add: engineInv_def split: option.splits)

lemma evolves_state_upd:
  "evolves (s\<lparr>modeState := x\<rparr>) s' = evolves s s'"
  "evolves (s\<lparr>enabledState := y\<rparr>) s' = evolves s s'"
  "evolves (s\<lparr>volumeState := z\<rparr>) s' = evolves s s'"
  "evolves s (s\<lparr>modeState := x\<rparr>)"
  "evolves s (s\<lparr>enabledState := y\<rparr>)"
  "evolves s (s\<lparr>volumeState := z\<rparr>)"
  by (auto simp: evolves_def intro: persists_refl)

lemma ready_step:
  assumes "ready s c m" and "shrinks D c c'" and "m \<notin> D"
    and "\<forall>n. currentNodesRef s' = Some n \<longrightarrow> currentNodesRef s = Some n \<and> D = {}"
    and "audioCtxRef s' = Some c'" and "masterGainRef s' = Some m"
  shows "engineInv s' \<and> evolves s s'"
proof -
  from assms(1) have c: "audioCtxRef s = Some c" and m: "masterGainRef s = Some m"
    and inv: "ctxInv m c" and g: "\<forall>n. currentNodesRef s = Some n \<longrightarrow> graphInv m c n"
    by (simp_all add: ready_def)
  from ctxInv_shrinks [OF inv assms(2,3)] have inv': "ctxInv m c'" .
  have "graphInv m c' n" if "currentNodesRef s' = Some n" for n
  proof -
    from that assms(4) have "currentNodesRef s = Some n" and "D = {}" by simp_all
    with g assms(2) show ?thesis
      by (auto intro: graphInv_shrinks)
  qed
  with inv' assms(5,6) have "ready s' c' m"
    by (simp add: ready_def)
  moreover from c m have "\<forall>m'. masterGainRef s = Some m' \<longrightarrow> m' = m" by simp
  moreover from c shrinks_persists [OF assms(2)]
  have "\<forall>c0. audioCtxRef s = Some c0 \<longrightarrow> persists c0 c'" by simp
  ultimately show ?thesis by (rule ready_evolves)
qed

lemma reschedule_shrinks:
  "shrinks D c (updParam i h (updParam i (g (getValue i (updParam i f c))) (updParam i f c)))"
  by (intro shrinks_step shrinks_refl)

lemma stopAll_inv:
  assumes "engineInv s"
  shows "engineInv (stateOf (stopAll s)) \<and> evolves s (stateOf (stopAll s))"
proof (cases "audioCtxRef s")
  case None
  with assms show ?thesis
    by (simp add: stopAll_def stateOf_def evolves_refl)
next
  case (Some c)
  with assms obtain m where m: "masterGainRef s = Some m" and rd: "ready s c m"
    by (auto simp: engineInv_def ready_def split: option.splits)
  from rd have g: "\<forall>n. currentNodesRef s = Some n \<longrightarrow> graphInv m c n"
    by (simp add: ready_def)
  define c1 where "c1 = updParam m (linearRampToValueAtTime 0 (currentTime c + FADE_TIME))
     (updParam m (setValueAtTime (getValue m (updParam m (cancelScheduledValues (currentTime c)) c))
        (currentTime c)) (updParam m (cancelScheduledValues (currentTime c)) c))"
  have sh1: "shrinks {} c c1"
    unfolding c1_def by (intro shrinks_step shrinks_refl)
  obtain c2 D where st: "stopModeNodes (currentNodesRef s) True c1 = Inr c2"
    and sh2: "shrinks D c1 c2" and mD: "m \<notin> D"
  proof (cases "currentNodesRef s")
    case None
    with that [of c1 "{}"] shrinks_refl show ?thesis
      by (simp add: stopModeNodes_None)
  next
    case (Some old)
    with g have "graphInv m c old" by simp
    from graphInv_shrinks [OF this sh1] have g1: "graphInv m c1 old" .
    then have "\<forall>i. lfoOsc old = Some i \<longrightarrow> started (nodes c1 i)"
      and "\<forall>i. panOsc old = Some i \<longrightarrow> started (nodes c1 i)"
      by (simp_all add: graphInv_def)
    from stopModeNodes_shrinks [OF this, of True] obtain c2 where
      a: "stopModeNodes (Some old) True c1 = Inr c2"
      and b: "shrinks (set (nodeIds old)) c1 c2"
      by blast
    from g1 have "m \<notin> set (nodeIds old)"
      by (auto simp: graphInv_def)
    with a b Some that show ?thesis by simp
  qed
  have sh: "shrinks D c c2"
    using shrinks_mono [OF sh1, of D] sh2 by (auto intro: shrinks_trans)
  have eq: "stopAll s = Inr (s\<lparr>audioCtxRef := Some c2, currentNodesRef := None\<rparr>)"
    unfolding stopAll_def Some option.case Let_def m
    unfolding c1_def [symmetric] st sum.case
    by (rule refl)
  from ready_step [OF rd sh mD, of "s\<lparr>audioCtxRef := Some c2, currentNodesRef := None\<rparr>"] m
  show ?thesis
    by (simp add: eq stateOf_def)
qed

lemma setVolume_inv:
  assumes "engineInv s"
  shows "engineInv (stateOf (setVolume r v s)) \<and> evolves s (stateOf (setVolume r v s))"
proof (cases "\<exists>c n. audioCtxRef s = Some c \<and> currentNodesRef s = Some n")
  case True
  then obtain c n where c: "audioCtxRef s = Some c" and n: "currentNodesRef s = Some n"
    by blast
  with assms obtain m where m: "masterGainRef s = Some m" and rd: "ready s c m"
    by (auto simp: engineInv_def ready_def split: option.splits)
  define c' where "c' = updParam (gain n)
      (linearRampToValueAtTime (max 0 (min 1 v)) (currentTime c + 0.2))
      (updParam (gain n)
         (setValueAtTime (getValue (gain n)
            (updParam (gain n) (cancelScheduledValues (currentTime c)) c)) (currentTime c))
         (updParam (gain n) (cancelScheduledValues (currentTime c)) c))"
  have sh: "shrinks {} c c'"
    unfolding c'_def by (intro shrinks_step shrinks_refl)
  have eq: "stateOf (setVolume r v s)
              = s\<lparr>volumeState := max 0 (min 1 v), audioCtxRef := Some c'\<rparr>"
    using c n by (simp add: setVolume_def stateOf_def Let_def c'_def)
  from ready_step [OF rd sh, of "s\<lparr>volumeState := max 0 (min 1 v), audioCtxRef := Some c'\<rparr>"] m
  show ?thesis
    by (simp add: eq)
next
  case False
  then have "stateOf (setVolume r v s) = s\<lparr>volumeState := max 0 (min 1 v)\<rparr>"
    by (auto simp: setVolume_def stateOf_def Let_def split: option.splits)
  with assms show ?thesis
    by (simp add: engineInv_state_upd evolves_state_upd)
qed

lemma masterGainEffect_inv:
  assumes "engineInv s"
  shows "engineInv (masterGainEffect r s) \<and> evolves s (masterGainEffect r s)"
proof (cases "audioCtxRef s")
  case None
  then show ?thesis using assms by (simp add: masterGainEffect_def evolves_refl)
next
  case (Some c)
  with assms obtain m where m: "masterGainRef s = Some m" and rd: "ready s c m"
    by (auto simp: engineInv_def ready_def split: option.splits)
  define c' where "c' = updParam m
      (linearRampToValueAtTime
         ((if \<not> enabled r then 0 else if isRunning r \<and> \<not> isBreak r then 1 else 0.3) * volume r)
         (currentTime c + 0.5))
      (updParam m
         (setValueAtTime (getValue m (updParam m (cancelScheduledValues (currentTime c)) c))
            (currentTime c))
         (updParam m (cancelScheduledValues (currentTime c)) c))"
  have sh: "shrinks {} c c'"
    unfolding c'_def by (intro shrinks_step shrinks_refl)
  have eq: "masterGainEffect r s = s\<lparr>audioCtxRef := Some c'\<rparr>"
    unfolding masterGainEffect_def Some m option.case Let_def c'_def by (rule refl)
  from ready_step [OF rd sh, of "s\<lparr>audioCtxRef := Some c'\<rparr>"] m show ?thesis
    by (simp add: eq)
qed

lemma tick_inv:
  assumes "engineInv s"
  shows "engineInv (tick t s) \<and> evolves s (tick t s)"
proof (cases "audioCtxRef s")
  case None
  then have "tick t s = s"
    by (simp add: tick_def)
  with assms show ?thesis by (simp add: evolves_refl)
next
  case (Some c)
  with assms obtain m where m: "masterGainRef s = Some m" and rd: "ready s c m"
    by (auto simp: engineInv_def ready_def split: option.splits)
  have eq: "tick t s = s\<lparr>audioCtxRef := Some (advanceTo t c)\<rparr>"
    by (simp add: tick_def Some)
  from ready_step [OF rd shrinks_advanceTo [of "{}" c t],
      of "s\<lparr>audioCtxRef := Some (advanceTo t c)\<rparr>"] m
  show ?thesis
    by (simp add: eq)
qed

lemma unlockHandler_inv:
  assumes "engineInv s"
  shows "engineInv (unlockHandler s) \<and> evolves s (unlockHandler s)"
proof -
  from resumeContextIfNeeded_ready [OF assms] obtain c m where
    R: "resumeContextIfNeeded s = (c, s\<lparr>audioCtxRef := Some c, masterGainRef := Some m\<rparr>)"
    and rd: "ready (s\<lparr>audioCtxRef := Some c, masterGainRef := Some m\<rparr>) c m"
    and k: "\<forall>m'. masterGainRef s = Some m' \<longrightarrow> m' = m"
    and kp: "\<forall>c0. audioCtxRef s = Some c0 \<longrightarrow> persists c0 c"
    by blast
  from ready_evolves [OF rd k kp] R show ?thesis
    by (simp add: unlockHandler_def)
qed

lemma setMode_inv:
  assumes "engineInv s"
  shows "engineInv (stateOf (setMode r md s)) \<and> evolves s (stateOf (setMode r md s))"
proof (cases "enabled r")
  case False
  with assms show ?thesis
    by (simp add: setMode_def stateOf_def engineInv_state_upd evolves_state_upd)
next
  case True
  from assms have "engineInv (s\<lparr>modeState := md\<rparr>)"
    by (simp add: engineInv_state_upd)
  from startMode_inv [OF this, of r md] True show ?thesis
    by (simp add: setMode_def evolves_state_upd)
qed

lemma setEnabled_inv:
  assumes "engineInv s"
  shows "engineInv (stateOf (setEnabled r on s)) \<and> evolves s (stateOf (setEnabled r on s))"
proof (cases on)
  case False
  from assms have "engineInv (s\<lparr>enabledState := False\<rparr>)"
    by (simp add: engineInv_state_upd)
  from stopAll_inv [OF this] False show ?thesis
    by (simp add: setEnabled_def evolves_state_upd)
next
  case True
  define s0 where "s0 = s\<lparr>enabledState := True\<rparr>"
  from assms have e: "engineInv s0"
    by (simp add: s0_def engineInv_state_upd)
  from resumeContextIfNeeded_ready [OF e] obtain c m where
    R: "resumeContextIfNeeded s0 = (c, s0\<lparr>audioCtxRef := Some c, masterGainRef := Some m\<rparr>)"
    and rd: "ready (s0\<lparr>audioCtxRef := Some c, masterGainRef := Some m\<rparr>) c m"
    and k: "\<forall>m'. masterGainRef s0 = Some m' \<longrightarrow> m' = m"
    and kp: "\<forall>c0. audioCtxRef s0 = Some c0 \<longrightarrow> persists c0 c"
    by blast
  define s1 where "s1 = s0\<lparr>audioCtxRef := Some c, masterGainRef := Some m\<rparr>"
  from ready_evolves [OF rd k kp] have e01: "evolves s0 s1"
    by (simp add: s1_def)
  from startMode_inv [OF ready_engineInv [OF rd], of r "mode r"]
  have i2: "engineInv (stateOf (startMode r (mode r) s1))"
    and e12: "evolves s1 (stateOf (startMode r (mode r) s1))"
    by (simp_all add: s1_def)
  from e01 e12 have "evolves s0 (stateOf (startMode r (mode r) s1))"
    unfolding evolves_def by (meson persists_trans)
  moreover have "setEnabled r on s = startMode r (mode r) s1"
    using True R by (simp add: setEnabled_def Let_def s0_def s1_def)
  ultimately show ?thesis
    using i2 by (simp add: s0_def evolves_state_upd)
qed

lemma step_inv:
  assumes "engineInv s"
  shows "engineInv (step a s) \<and> evolves s (step a s)"
proof (cases a)
  case (SetMode r md)
  with setMode_inv [OF assms, of r md] show ?thesis by simp
next
  case (SetEnabled r on)
  with setEnabled_inv [OF assms, of r on] show ?thesis by simp
next
  case (SetVolume r v)
  with setVolume_inv [OF assms, of r v] show ?thesis by simp
next
  case (MasterGainEffect r)
  with masterGainEffect_inv [OF assms, of r] show ?thesis by simp
next
  case UnlockGesture
  with unlockHandler_inv [OF assms] show ?thesis by simp
next
  case (Tick t)
  with tick_inv [OF assms, of t] show ?thesis by simp
qed

lemma engineInv_initial: "engineInv initialEngine"
  by (simp add: engineInv_def initialEngine_def)

lemma run_inv: "engineInv (run acts initialEngine)"
proof (induction acts rule: rev_induct)
  case Nil
  show ?case by (simp add: run_def engineInv_initial)
next
  case (snoc a acts)
  from step_inv [OF snoc, of a] show ?case
    by (simp add: run_def)
qed

lemma engineInv_masterInv: "engineInv s \<Longrightarrow> masterInv s"
  by (auto simp: engineInv_def masterInv_def ctxInv_def graphInv_def list_all_iff
        split: option.splits)

text \<open>
  C9: in every state the engine reaches from its initial state, by any sequence of
  operations, the invariant \<open>masterInv\<close> holds: context and master gain exist together,
  the master gain is the one node connected to the destination, and the current graph's
  output gain is connected to the master gain. Context and master gain are created once:
  when a context exists \<open>ensureContext\<close> returns it and changes nothing, every operation
  leaves the same context in place (no node identity is given up, every node keeps its
  kind, started sources stay started), and \<open>masterGainRef\<close>, once set, is never replaced.
  And every graph \<open>buildModeNodes\<close> builds in such a state, for rain, wind or waves, has its
  output gain connected to that master gain and to nothing else.
\<close>

theorem master_gain_invariant:
  "masterInv (run acts initialEngine)
   \<and> (\<forall>m. masterGainRef (run acts initialEngine) = Some m
          \<longrightarrow> masterGainRef (step a (run acts initialEngine)) = Some m)
   \<and> (\<forall>ctx. audioCtxRef (run acts initialEngine) = Some ctx
          \<longrightarrow> ensureContext (run acts initialEngine) = (ctx, run acts initialEngine)
              \<and> (\<exists>ctx'. audioCtxRef (step a (run acts initialEngine)) = Some ctx'
                        \<and> persists ctx ctx'))
   \<and> (\<forall>ctx m. audioCtxRef (run acts initialEngine) = Some ctx
            \<and> masterGainRef (run acts initialEngine) = Some m
          \<longrightarrow> (\<exists>n c'. buildModeNodes (Some m) md ctx = Inr (n, c')
                 \<and> outputs (nodes c' (gain n)) = [ToNode m]))"
proof -
  have inv: "engineInv (run acts initialEngine)"
    by (rule run_inv)
  have b: "\<exists>n c'. buildModeNodes (Some m) md ctx = Inr (n, c')
                 \<and> outputs (nodes c' (gain n)) = [ToNode m]"
    if "audioCtxRef (run acts initialEngine) = Some ctx"
      and "masterGainRef (run acts initialEngine) = Some m" for ctx m
  proof -
    from inv that have "ctxInv m ctx"
      by (simp add: engineInv_def)
    from build_ok [OF this, of md] show ?thesis
      by (auto simp: graphInv_def)
  qed
  have e: "ensureContext (run acts initialEngine) = (ctx, run acts initialEngine)"
    if "audioCtxRef (run acts initialEngine) = Some ctx" for ctx
    using that by (simp add: ensureContext_def)
  from step_inv [OF inv, of a] have ev: "evolves (run acts initialEngine)
      (step a (run acts initialEngine))"
    by simp
  from ev have k: "\<forall>m. masterGainRef (run acts initialEngine) = Some m
          \<longrightarrow> masterGainRef (step a (run acts initialEngine)) = Some m"
    by (simp add: evolves_def)
  from ev have p: "\<forall>ctx. audioCtxRef (run acts initialEngine) = Some ctx
       \<longrightarrow> (\<exists>ctx'. audioCtxRef (step a (run acts initialEngine)) = Some ctx'
                        \<and> persists ctx ctx')"
    by (simp add: evolves_def)
  from engineInv_masterInv [OF inv] k p b e show ?thesis
    by (intro conjI allI impI) blast+
qed

text \<open>C9 after the first gesture and \<open>setEnabled(true)\<close>: the master gain is node 0, it
  stays node 0 when \<open>setMode('waves')\<close> follows, the context keeps its four nodes through
  that call, node 0 is connected to the destination and the rain graph's output gain
  (node 1) to node 0.\<close>

theorem master_gain_invariant_witness:
  "(let s = run [UnlockGesture, SetEnabled (render False False initialEngine) True]
              initialEngine;
        s' = step (SetMode (render True False s) waves) s
    in masterGainRef s = Some 0 \<and> masterInv s
       \<and> map_option nextId (audioCtxRef s) = Some 4
       \<and> masterGainRef s' = Some 0
       \<and> (\<exists>ctx ctx'. audioCtxRef s = Some ctx \<and> audioCtxRef s' = Some ctx'
                      \<and> persists ctx ctx')
       \<and> map_option outputs (nodeAt s 0) = Some [ToDestination]
       \<and> map_option outputs (nodeAt s 1) = Some [ToNode 0])"
proof -
  define s where
    "s = run [UnlockGesture, SetEnabled (render False False initialEngine) True] initialEngine"
  have e: "masterGainRef s = Some 0 \<and> map_option nextId (audioCtxRef s) = Some 4
           \<and> map_option outputs (nodeAt s 0) = Some [ToDestination]
           \<and> map_option outputs (nodeAt s 1) = Some [ToNode 0]"
    unfolding s_def run_def
    by (simp add: engine_defs prims store_defs param_defs Let_def cong: eval_congs)
  then obtain ctx where c: "audioCtxRef s = Some ctx"
    by auto
  from master_gain_invariant
    [of "[UnlockGesture, SetEnabled (render False False initialEngine) True]"
        "SetMode (render True False s) waves" rain]
  have "masterInv s"
    and "\<forall>m. masterGainRef s = Some m
           \<longrightarrow> masterGainRef (step (SetMode (render True False s) waves) s) = Some m"
    and "\<forall>ctx. audioCtxRef s = Some ctx
           \<longrightarrow> (\<exists>ctx'. audioCtxRef (step (SetMode (render True False s) waves) s) = Some ctx'
                        \<and> persists ctx ctx')"
    unfolding s_def [symmetric] by blast+
  with e c show ?thesis
    unfolding Let_def s_def [symmetric] by auto
qed

end
